theory Spec2Isabelle
  imports Main "HOL-Library.Word" "HOL-Library.Multiset"
begin

unbundle bit_operations_syntax

section \<open>AEHD accelerator client layer (target/i386/aehd/aehd-all.c)\<close>

text \<open>
  The embedding follows the C file function by function.  Mutation of the global
  \<open>AEHDState\<close> is explicit state passing; every effect that leaves the process (a
  \<open>DeviceIoControl\<close> request, an architecture hook, a process-level request) is appended
  to a trace of events, and the driver's answer to a request is a function of the trace so
  far.  \<open>abort()\<close> and a failed \<open>assert\<close> are the error values of a sum type.
\<close>

subsection \<open>Result codes\<close>

text \<open>errno values of the C runtime the file is built against, and QEMU's EXCP codes.\<close>

definition ESRCH :: int where "ESRCH = 3"
definition EINTR :: int where "EINTR = 4"
definition E2BIG :: int where "E2BIG = 7"
definition EAGAIN :: int where "EAGAIN = 11"
definition EFAULT :: int where "EFAULT = 14"
definition ENOSPC :: int where "ENOSPC = 28"

definition EXCP_INTERRUPT :: int where "EXCP_INTERRUPT = 0x10000"
definition EXCP_HLT :: int where "EXCP_HLT = 0x10001"

datatype error = Abort | AssertionFailed

subsection \<open>Data model\<close>

type_synonym hwaddr = "64 word"

text \<open>\<open>struct aehd_userspace_memory_region\<close>, the argument of the set-memory-region request.\<close>

record aehd_userspace_memory_region =
  mem_slot :: "32 word"
  mem_flags :: "32 word"
  mem_guest_phys_addr :: "64 word"
  mem_memory_size :: "64 word"
  mem_userspace_addr :: "64 word"

text \<open>
  \<open>struct aehd_irq_routing_entry\<close>: a GSI, the kind of target and the payload of that
  kind.  GSI numbers are small non-negative integers on which no arithmetic is done.
\<close>

datatype routing_type = AEHD_IRQ_ROUTING_IRQCHIP | AEHD_IRQ_ROUTING_MSI

datatype routing_union =
    U_irqchip (irqchip_irqchip : "32 word") (irqchip_pin : "32 word")
  | U_msi (msi_address_lo : "32 word") (msi_address_hi : "32 word") (msi_data : "32 word")

record aehd_irq_routing_entry =
  gsi :: nat
  entry_type :: routing_type
  entry_flags :: "32 word"
  u :: routing_union

record MSIMessage =
  address :: "64 word"
  data :: "32 word"

text \<open>The three handles a request can be issued on: \<open>s->fd\<close>, \<open>s->vmfd\<close>, \<open>cpu->aehd_fd\<close>.\<close>

datatype handle = Device_fd | Vm_fd | Vcpu_fd

datatype request =
    AEHD_SET_USER_MEMORY_REGION aehd_userspace_memory_region
  | AEHD_GET_DIRTY_LOG "32 word" nat
  | AEHD_SET_GSI_ROUTING "aehd_irq_routing_entry list"
  | AEHD_IRQ_LINE_STATUS nat int
  | AEHD_CREATE_VM
  | AEHD_RUN

text \<open>What \<open>GetLastError\<close> reports after a failed \<open>DeviceIoControl\<close>.\<close>

datatype win32_error = ERROR_MORE_DATA | ERROR_RETRY | ERROR_OTHER nat

text \<open>
  The answer of the driver to one request: whether \<open>DeviceIoControl\<close> succeeded, the last
  error if it did not, the scalar written to the output buffer (the status of an interrupt
  line), and the dirty bitmap when one was asked for.
\<close>

record reply =
  io_ok :: bool
  io_last_error :: win32_error
  io_status :: int
  io_bitmap :: "bool list"

datatype put_level = AEHD_PUT_RUNTIME_STATE | AEHD_PUT_RESET_STATE | AEHD_PUT_FULL_STATE

datatype event =
    Ioctl handle request
  | Arch_release_virq_post nat
  | Arch_add_msi_route_post aehd_irq_routing_entry
  | Set_dirty_lebitmap "bool list" "64 word" "64 word"
  | Memory_region_ref
  | Memory_region_unref
  | Arch_get_registers
  | Arch_put_registers put_level
  | Arch_pre_run
  | Arch_post_run
  | Cpu_kick
  | Address_space_rw_io "16 word" nat bool
  | Address_space_rw_memory "64 word" nat bool
  | Reset_request
  | Shutdown_request
  | Guest_panicked
  | Cpu_dump_state
  | Vm_stop

text \<open>
  The host: the driver behind \<open>DeviceIoControl\<close>, which answers a request in view of
  everything that happened before, the host page size, and the host's conversion of a
  little-endian 32-bit value.
\<close>

record host =
  DeviceIoControl :: "event list \<Rightarrow> handle \<Rightarrow> request \<Rightarrow> reply"
  qemu_real_host_page_size :: "64 word"
  le32_to_cpu :: "32 word \<Rightarrow> 32 word"

record AEHDSlot =
  start_addr :: hwaddr
  memory_size :: "64 word"
  ram :: "64 word"
  slot :: "32 word"
  flags :: "32 word"

record AEHDMemoryListener =
  slots :: "AEHDSlot list"
  as_id :: "32 word"

text \<open>
  An entry of the MSI cache (\<open>AEHDMSIRoute\<close>) holds the routing entry it was registered
  with.  The cache is an array of \<open>AEHD_MSI_HASHTAB_SIZE\<close> tail queues indexed by the hash
  of the message data.
\<close>

record AEHDMSIRoute =
  kroute :: aehd_irq_routing_entry

record AEHDState =
  nr_slots :: nat
  memory_listener :: AEHDMemoryListener
  gsi_count :: nat
  used_gsi_bitmap :: "nat set"
  irq_routes :: "aehd_irq_routing_entry list"
  nr_allocated_irq_routes :: nat
  msi_hashtab :: "nat \<Rightarrow> AEHDMSIRoute list"

subsection \<open>Control-call transport\<close>

text \<open>
  \<open>aehd_ioctl\<close>, \<open>aehd_vm_ioctl\<close> and \<open>aehd_vcpu_ioctl\<close> issue one \<open>DeviceIoControl\<close>
  on their handle and map its failure to an errno.  Each returns the code, the reply (for
  the output buffer) and the extended trace.
\<close>

definition errno_of_last_error :: "win32_error \<Rightarrow> int" where
  "errno_of_last_error e =
     (case e of ERROR_MORE_DATA \<Rightarrow> - E2BIG | ERROR_RETRY \<Rightarrow> - EAGAIN | ERROR_OTHER _ \<Rightarrow> - EFAULT)"

definition device_io_control ::
  "host \<Rightarrow> handle \<Rightarrow> request \<Rightarrow> event list \<Rightarrow> int \<times> reply \<times> event list" where
  "device_io_control h fd req tr =
     (let r = DeviceIoControl h tr fd req;
          ret = (if \<not> io_ok r then errno_of_last_error (io_last_error r) else 0)
      in (ret, r, tr @ [Ioctl fd req]))"

definition aehd_ioctl :: "host \<Rightarrow> request \<Rightarrow> event list \<Rightarrow> int \<times> reply \<times> event list" where
  "aehd_ioctl h req tr = device_io_control h Device_fd req tr"

definition aehd_vm_ioctl :: "host \<Rightarrow> request \<Rightarrow> event list \<Rightarrow> int \<times> reply \<times> event list" where
  "aehd_vm_ioctl h req tr = device_io_control h Vm_fd req tr"

definition aehd_vcpu_ioctl :: "host \<Rightarrow> request \<Rightarrow> event list \<Rightarrow> int \<times> reply \<times> event list" where
  "aehd_vcpu_ioctl h req tr = device_io_control h Vcpu_fd req tr"

subsection \<open>Memory slot manager\<close>

text \<open>
  The shape of the two table scans, \<open>for (i = 0; i < n; i++) if (P(a[i])) return &a[i];
  return NULL;\<close>: the index of the first element that satisfies \<open>P\<close>.
\<close>

fun first_index :: "('a \<Rightarrow> bool) \<Rightarrow> 'a list \<Rightarrow> nat option" where
  "first_index P [] = None"
| "first_index P (x # xs) = (if P x then Some 0 else map_option Suc (first_index P xs))"

text \<open>The table was allocated with \<open>nr_slots\<close> entries; the scans read the first \<open>nr_slots\<close>.\<close>

definition aehd_get_free_slot :: "AEHDState \<Rightarrow> AEHDMemoryListener \<Rightarrow> nat option" where
  "aehd_get_free_slot s gml =
     first_index (\<lambda>m. memory_size m = 0) (take (nr_slots s) (slots gml))"

definition aehd_alloc_slot :: "AEHDState \<Rightarrow> AEHDMemoryListener \<Rightarrow> error + nat" where
  "aehd_alloc_slot s gml =
     (case aehd_get_free_slot s gml of Some i \<Rightarrow> Inr i | None \<Rightarrow> Inl Abort)"

definition aehd_lookup_matching_slot ::
  "AEHDState \<Rightarrow> AEHDMemoryListener \<Rightarrow> hwaddr \<Rightarrow> hwaddr \<Rightarrow> nat option" where
  "aehd_lookup_matching_slot s gml start sz =
     first_index (\<lambda>m. start = start_addr m \<and> sz = memory_size m) (take (nr_slots s) (slots gml))"

text \<open>
  A memory region as far as this file reads it, and a section of it.  \<open>section_size\<close> is
  \<open>int128_get64(section->size)\<close>.
\<close>

record MemoryRegion =
  readonly :: bool
  rom_device :: bool
  romd_mode :: bool
  is_ram :: bool
  dirty_log_mask :: nat
  ram_ptr :: "64 word"
  ram_addr :: "64 word"

record MemoryRegionSection =
  mr :: MemoryRegion
  offset_within_region :: "64 word"
  offset_within_address_space :: hwaddr
  section_size :: "64 word"

definition ROUND_UP :: "64 word \<Rightarrow> 64 word \<Rightarrow> 64 word" where
  "ROUND_UP n d = (n + d - 1) AND (- d)"

definition qemu_real_host_page_mask :: "host \<Rightarrow> 64 word" where
  "qemu_real_host_page_mask h = - qemu_real_host_page_size h"

text \<open>\<open>aehd_align_section\<close> returns the size and stores the aligned start through \<open>start\<close>.\<close>

definition aehd_align_section :: "host \<Rightarrow> MemoryRegionSection \<Rightarrow> hwaddr \<times> hwaddr" where
  "aehd_align_section h section =
     (let sz = section_size section;
          aligned = ROUND_UP (offset_within_address_space section) (qemu_real_host_page_size h);
          delta = aligned - offset_within_address_space section
      in if delta > sz then (0, aligned)
         else ((sz - delta) AND qemu_real_host_page_mask h, aligned))"

text \<open>Flag bits of a slot (sysemu/aehd-interface.h follows the KVM ABI).\<close>

definition AEHD_MEM_LOG_DIRTY_PAGES :: "32 word" where "AEHD_MEM_LOG_DIRTY_PAGES = 1"
definition AEHD_MEM_READONLY :: "32 word" where "AEHD_MEM_READONLY = 2"

text \<open>The request structure \<open>mem\<close> filled from a slot, with \<open>memory_size\<close> set to \<open>sz\<close>.\<close>

definition slot_region :: "AEHDMemoryListener \<Rightarrow> AEHDSlot \<Rightarrow> 64 word \<Rightarrow> aehd_userspace_memory_region" where
  "slot_region gml sl sz =
     \<lparr> mem_slot = slot sl OR push_bit 16 (as_id gml),
       mem_flags = flags sl,
       mem_guest_phys_addr = start_addr sl,
       mem_memory_size = sz,
       mem_userspace_addr = ram sl \<rparr>"

text \<open>
  \<open>r\<close> holds the result of the size-zero request when that one is issued, and is
  assigned again by the full-size request in every case.
\<close>

definition aehd_set_user_memory_region ::
  "host \<Rightarrow> AEHDMemoryListener \<Rightarrow> AEHDSlot \<Rightarrow> event list \<Rightarrow> int \<times> event list" where
  "aehd_set_user_memory_region h gml sl tr =
     (let mem = slot_region gml sl 0;
          (r, tr1) = (if memory_size sl \<noteq> 0 \<and> mem_flags mem AND AEHD_MEM_READONLY \<noteq> 0
                      then (let (r, _, tr1) = aehd_vm_ioctl h (AEHD_SET_USER_MEMORY_REGION mem) tr
                            in (r, tr1))
                      else (0, tr));
          mem = mem \<lparr> mem_memory_size := memory_size sl \<rparr>;
          (r, _, tr2) = aehd_vm_ioctl h (AEHD_SET_USER_MEMORY_REGION mem) tr1
      in (r, tr2))"

definition memory_region_is_romd :: "MemoryRegion \<Rightarrow> bool" where
  "memory_region_is_romd m = (rom_device m \<and> romd_mode m)"

definition aehd_mem_flags :: "MemoryRegion \<Rightarrow> 32 word" where
  "aehd_mem_flags m =
     (let ro = (readonly m \<or> memory_region_is_romd m);
          fl = 0;
          fl = (if dirty_log_mask m \<noteq> 0 then fl OR AEHD_MEM_LOG_DIRTY_PAGES else fl);
          fl = (if ro then fl OR AEHD_MEM_READONLY else fl)
      in fl)"

text \<open>A slot pointer is an index into the table of the listener.\<close>

definition the_slot :: "AEHDState \<Rightarrow> nat \<Rightarrow> AEHDSlot" where
  "the_slot s i = slots (memory_listener s) ! i"

definition set_slot :: "AEHDState \<Rightarrow> nat \<Rightarrow> AEHDSlot \<Rightarrow> AEHDState" where
  "set_slot s i sl =
     s \<lparr> memory_listener := (memory_listener s) \<lparr> slots := (slots (memory_listener s)) [i := sl] \<rparr> \<rparr>"

definition aehd_slot_update_flags ::
  "host \<Rightarrow> AEHDState \<Rightarrow> nat \<Rightarrow> MemoryRegion \<Rightarrow> event list \<Rightarrow> int \<times> AEHDState \<times> event list" where
  "aehd_slot_update_flags h s i m tr =
     (let old_flags = flags (the_slot s i);
          s1 = set_slot s i ((the_slot s i) \<lparr> flags := aehd_mem_flags m \<rparr>)
      in if flags (the_slot s1 i) = old_flags then (0, s1, tr)
         else (let (r, tr1) = aehd_set_user_memory_region h (memory_listener s1) (the_slot s1 i) tr
               in (r, s1, tr1)))"

definition aehd_section_update_flags ::
  "host \<Rightarrow> AEHDState \<Rightarrow> MemoryRegionSection \<Rightarrow> event list \<Rightarrow> int \<times> AEHDState \<times> event list" where
  "aehd_section_update_flags h s section tr =
     (let (sz, start) = aehd_align_section h section
      in if sz = 0 then (0, s, tr)
         else (case aehd_lookup_matching_slot s (memory_listener s) start sz of
                 None \<Rightarrow> (0, s, tr)
               | Some i \<Rightarrow> aehd_slot_update_flags h s i (mr section) tr))"

definition aehd_log_start ::
  "host \<Rightarrow> AEHDState \<Rightarrow> MemoryRegionSection \<Rightarrow> int \<Rightarrow> int \<Rightarrow> event list
     \<Rightarrow> error + AEHDState \<times> event list" where
  "aehd_log_start h s section old new tr =
     (if old \<noteq> 0 then Inr (s, tr)
      else (let (r, s1, tr1) = aehd_section_update_flags h s section tr
            in if r < 0 then Inl Abort else Inr (s1, tr1)))"

definition aehd_log_stop ::
  "host \<Rightarrow> AEHDState \<Rightarrow> MemoryRegionSection \<Rightarrow> int \<Rightarrow> int \<Rightarrow> event list
     \<Rightarrow> error + AEHDState \<times> event list" where
  "aehd_log_stop h s section old new tr =
     (if new \<noteq> 0 then Inr (s, tr)
      else (let (r, s1, tr1) = aehd_section_update_flags h s section tr
            in if r < 0 then Inl Abort else Inr (s1, tr1)))"

definition TARGET_PAGE_BITS :: nat where "TARGET_PAGE_BITS = 12"
definition HOST_LONG_BITS :: "64 word" where "HOST_LONG_BITS = 64"

definition ALIGN :: "64 word \<Rightarrow> 64 word \<Rightarrow> 64 word" where
  "ALIGN x y = (x + y - 1) AND NOT (y - 1)"

definition aehd_get_dirty_pages_log_range ::
  "host \<Rightarrow> MemoryRegionSection \<Rightarrow> bool list \<Rightarrow> event list \<Rightarrow> event list" where
  "aehd_get_dirty_pages_log_range h section bitmap tr =
     (let start = offset_within_region section + ram_addr (mr section);
          pages = section_size section div qemu_real_host_page_size h
      in tr @ [Set_dirty_lebitmap bitmap start pages])"

definition aehd_physical_sync_dirty_bitmap ::
  "host \<Rightarrow> AEHDState \<Rightarrow> MemoryRegionSection \<Rightarrow> event list \<Rightarrow> int \<times> event list" where
  "aehd_physical_sync_dirty_bitmap h s section tr =
     (let gml = memory_listener s;
          (sz, start) = aehd_align_section h section
      in if sz \<noteq> 0 then
           (case aehd_lookup_matching_slot s gml start sz of
              None \<Rightarrow> (0, tr)
            | Some i \<Rightarrow>
                (let bytes = ALIGN (drop_bit TARGET_PAGE_BITS (memory_size (the_slot s i)))
                               HOST_LONG_BITS div 8;
                     d_slot = slot (the_slot s i) OR push_bit 16 (as_id gml);
                     (r, rep, tr1) = aehd_vm_ioctl h (AEHD_GET_DIRTY_LOG d_slot (unat bytes)) tr
                 in if r \<noteq> 0 then (- 1, tr1)
                    else (0, aehd_get_dirty_pages_log_range h section (io_bitmap rep) tr1)))
         else (0, tr))"

definition aehd_set_phys_mem ::
  "host \<Rightarrow> AEHDState \<Rightarrow> MemoryRegionSection \<Rightarrow> bool \<Rightarrow> event list
     \<Rightarrow> error + AEHDState \<times> event list" where
  "aehd_set_phys_mem h s section add tr =
     (let m = mr section;
          writeable = (\<not> readonly m \<and> \<not> rom_device m)
      in if \<not> is_ram m \<and> writeable then Inr (s, tr)
         else
          (let add = (if \<not> is_ram m \<and> \<not> romd_mode m then False else add);
               (sz, start) = aehd_align_section h section
           in if sz = 0 then Inr (s, tr)
              else
               (let ram_p = ram_ptr m + offset_within_region section
                              + (start - offset_within_address_space section)
                in if \<not> add then
                     (case aehd_lookup_matching_slot s (memory_listener s) start sz of
                        None \<Rightarrow> Inr (s, tr)
                      | Some i \<Rightarrow>
                          (let tr1 = (if flags (the_slot s i) AND AEHD_MEM_LOG_DIRTY_PAGES \<noteq> 0
                                      then snd (aehd_physical_sync_dirty_bitmap h s section tr)
                                      else tr);
                               s1 = set_slot s i ((the_slot s i) \<lparr> memory_size := 0 \<rparr>);
                               (err, tr2) = aehd_set_user_memory_region h (memory_listener s1)
                                              (the_slot s1 i) tr1
                           in if err \<noteq> 0 then Inl Abort else Inr (s1, tr2)))
                   else
                     (case aehd_alloc_slot s (memory_listener s) of
                        Inl e \<Rightarrow> Inl e
                      | Inr i \<Rightarrow>
                          (let s1 = set_slot s i ((the_slot s i)
                                      \<lparr> start_addr := start, memory_size := sz, ram := ram_p,
                                        flags := aehd_mem_flags m \<rparr>);
                               (err, tr1) = aehd_set_user_memory_region h (memory_listener s1)
                                              (the_slot s1 i) tr
                           in if err \<noteq> 0 then Inl Abort else Inr (s1, tr1))))))"

definition aehd_region_add ::
  "host \<Rightarrow> AEHDState \<Rightarrow> MemoryRegionSection \<Rightarrow> event list \<Rightarrow> error + AEHDState \<times> event list" where
  "aehd_region_add h s section tr = aehd_set_phys_mem h s section True (tr @ [Memory_region_ref])"

definition aehd_region_del ::
  "host \<Rightarrow> AEHDState \<Rightarrow> MemoryRegionSection \<Rightarrow> event list \<Rightarrow> error + AEHDState \<times> event list" where
  "aehd_region_del h s section tr =
     (case aehd_set_phys_mem h s section False tr of
        Inl e \<Rightarrow> Inl e
      | Inr (s1, tr1) \<Rightarrow> Inr (s1, tr1 @ [Memory_region_unref]))"

definition aehd_log_sync ::
  "host \<Rightarrow> AEHDState \<Rightarrow> MemoryRegionSection \<Rightarrow> event list \<Rightarrow> error + event list" where
  "aehd_log_sync h s section tr =
     (let (r, tr1) = aehd_physical_sync_dirty_bitmap h s section tr
      in if r < 0 then Inl Abort else Inr tr1)"

text \<open>\<open>aehd_memory_listener_register\<close>: a zeroed table of \<open>nr_slots\<close> slots numbered in order.\<close>

definition aehd_memory_listener_register :: "AEHDState \<Rightarrow> 32 word \<Rightarrow> AEHDState" where
  "aehd_memory_listener_register s asid =
     s \<lparr> memory_listener :=
           \<lparr> slots = map (\<lambda>i. \<lparr> start_addr = 0, memory_size = 0, ram = 0,
                                 slot = word_of_nat i, flags = 0 \<rparr>) [0..<nr_slots s],
             as_id = asid \<rparr> \<rparr>"

subsection \<open>IRQ and MSI routing table\<close>

definition aehd_set_irq :: "host \<Rightarrow> nat \<Rightarrow> int \<Rightarrow> event list \<Rightarrow> error + int \<times> event list" where
  "aehd_set_irq h irq level tr =
     (let (ret, rep, tr1) = aehd_vm_ioctl h (AEHD_IRQ_LINE_STATUS irq level) tr
      in if ret < 0 then Inl Abort else Inr (io_status rep, tr1))"

definition set_gsi :: "AEHDState \<Rightarrow> nat \<Rightarrow> AEHDState" where
  "set_gsi s g = s \<lparr> used_gsi_bitmap := insert g (used_gsi_bitmap s) \<rparr>"

definition clear_gsi :: "AEHDState \<Rightarrow> nat \<Rightarrow> AEHDState" where
  "clear_gsi s g = s \<lparr> used_gsi_bitmap := used_gsi_bitmap s - {g} \<rparr>"

definition AEHD_MSI_HASHTAB_SIZE :: nat where "AEHD_MSI_HASHTAB_SIZE = 256"

text \<open>
  \<open>aehd_init_irq_routing\<close>; \<open>cap\<close> is what \<open>aehd_check_extension(s, AEHD_CAP_IRQ_ROUTING)\<close>
  returned.
\<close>

definition aehd_init_irq_routing :: "AEHDState \<Rightarrow> int \<Rightarrow> AEHDState" where
  "aehd_init_irq_routing s cap =
     (let gc = cap - 1;
          s1 = (if gc > 0 then s \<lparr> gsi_count := nat gc, used_gsi_bitmap := {} \<rparr> else s)
      in s1 \<lparr> irq_routes := [], nr_allocated_irq_routes := 0, msi_hashtab := (\<lambda>_. []) \<rparr>)"

definition aehd_irqchip_commit_routes :: "host \<Rightarrow> AEHDState \<Rightarrow> event list \<Rightarrow> error + event list" where
  "aehd_irqchip_commit_routes h s tr =
     (let (ret, _, tr1) = aehd_vm_ioctl h (AEHD_SET_GSI_ROUTING (irq_routes s)) tr
      in if ret = 0 then Inr tr1 else Inl AssertionFailed)"

text \<open>
  \<open>irq_routes\<close> is the list of the \<open>nr\<close> entries in use; \<open>nr_allocated_irq_routes\<close> is the
  capacity of the array that holds them.
\<close>

definition aehd_add_routing_entry :: "AEHDState \<Rightarrow> aehd_irq_routing_entry \<Rightarrow> AEHDState" where
  "aehd_add_routing_entry s entry =
     (let s1 = (if length (irq_routes s) = nr_allocated_irq_routes s
                then (let n = nr_allocated_irq_routes s * 2;
                          n = (if n < 64 then 64 else n)
                      in s \<lparr> nr_allocated_irq_routes := n \<rparr>)
                else s);
          s2 = s1 \<lparr> irq_routes := irq_routes s1 @ [entry] \<rparr>
      in set_gsi s2 (gsi entry))"

definition aehd_update_routing_entry ::
  "AEHDState \<Rightarrow> aehd_irq_routing_entry \<Rightarrow> int \<times> AEHDState" where
  "aehd_update_routing_entry s new_entry =
     (case first_index (\<lambda>e. gsi e = gsi new_entry) (irq_routes s) of
        None \<Rightarrow> (- ESRCH, s)
      | Some n \<Rightarrow>
          if irq_routes s ! n = new_entry then (0, s)
          else (0, s \<lparr> irq_routes := (irq_routes s) [n := new_entry] \<rparr>))"

text \<open>The entry \<open>e\<close> that \<open>aehd_irqchip_add_irq_route\<close> fills in.\<close>

definition irqchip_kroute :: "nat \<Rightarrow> nat \<Rightarrow> nat \<Rightarrow> aehd_irq_routing_entry" where
  "irqchip_kroute irq irqchip pin =
     \<lparr> gsi = irq, entry_type = AEHD_IRQ_ROUTING_IRQCHIP, entry_flags = 0,
       u = U_irqchip (word_of_nat irqchip) (word_of_nat pin) \<rparr>"

definition aehd_irqchip_add_irq_route ::
  "AEHDState \<Rightarrow> nat \<Rightarrow> nat \<Rightarrow> nat \<Rightarrow> error + AEHDState" where
  "aehd_irqchip_add_irq_route s irq irqchip pin =
     (if \<not> pin < gsi_count s then Inl AssertionFailed
      else Inr (aehd_add_routing_entry s (irqchip_kroute irq irqchip pin)))"

text \<open>
  The loop of \<open>aehd_irqchip_release_virq\<close>: at a match the count drops by one and the last
  entry is copied into place \<open>i\<close>, then \<open>i\<close> moves on.
\<close>

function release_loop ::
  "nat \<Rightarrow> nat \<Rightarrow> aehd_irq_routing_entry list \<Rightarrow> aehd_irq_routing_entry list" where
  "release_loop virq i es =
     (if i < length es then
        (if gsi (es ! i) = virq then release_loop virq (i + 1) ((butlast es) [i := last es])
         else release_loop virq (i + 1) es)
      else es)"
  by pat_completeness auto
termination
  by (relation "measure (\<lambda>(virq, i, es). length es - i)") auto

declare release_loop.simps [simp del]

definition aehd_irqchip_release_virq ::
  "AEHDState \<Rightarrow> nat \<Rightarrow> event list \<Rightarrow> AEHDState \<times> event list" where
  "aehd_irqchip_release_virq s virq tr =
     (let s1 = s \<lparr> irq_routes := release_loop virq 0 (irq_routes s) \<rparr>
      in (clear_gsi s1 virq, tr @ [Arch_release_virq_post virq]))"

definition aehd_hash_msi :: "32 word \<Rightarrow> nat" where
  "aehd_hash_msi d = unat (d AND 0xff)"

text \<open>
  One bucket of \<open>aehd_flush_dynamic_msi_routes\<close>: every route of the bucket, in order, is
  released and taken out of the bucket.
\<close>

definition flush_route :: "nat \<Rightarrow> AEHDMSIRoute \<Rightarrow> AEHDState \<times> event list \<Rightarrow> AEHDState \<times> event list" where
  "flush_route hash route st =
     (let (s1, tr1) = aehd_irqchip_release_virq (fst st) (gsi (kroute route)) (snd st)
      in (s1 \<lparr> msi_hashtab := (msi_hashtab s1) (hash := remove1 route (msi_hashtab s1 hash)) \<rparr>,
          tr1))"

definition flush_bucket :: "nat \<Rightarrow> AEHDState \<times> event list \<Rightarrow> AEHDState \<times> event list" where
  "flush_bucket hash st = fold (flush_route hash) (msi_hashtab (fst st) hash) st"

definition aehd_flush_dynamic_msi_routes :: "AEHDState \<Rightarrow> event list \<Rightarrow> AEHDState \<times> event list" where
  "aehd_flush_dynamic_msi_routes s tr = fold flush_bucket [0..<AEHD_MSI_HASHTAB_SIZE] (s, tr)"

definition find_first_zero_bit :: "nat set \<Rightarrow> nat \<Rightarrow> nat" where
  "find_first_zero_bit bitmap n =
     (case first_index (\<lambda>i. i \<notin> bitmap) [0..<n] of Some i \<Rightarrow> i | None \<Rightarrow> n)"

definition aehd_irqchip_get_virq :: "AEHDState \<Rightarrow> event list \<Rightarrow> int \<times> AEHDState \<times> event list" where
  "aehd_irqchip_get_virq s tr =
     (let (s1, tr1) = (if length (irq_routes s) = gsi_count s
                       then aehd_flush_dynamic_msi_routes s tr else (s, tr));
          next_virq = find_first_zero_bit (used_gsi_bitmap s1) (gsi_count s1)
      in if next_virq \<ge> gsi_count s1 then (- ENOSPC, s1, tr1)
         else (int next_virq, s1, tr1))"

definition aehd_lookup_msi_route :: "host \<Rightarrow> AEHDState \<Rightarrow> MSIMessage \<Rightarrow> AEHDMSIRoute option" where
  "aehd_lookup_msi_route h s msg =
     find (\<lambda>route. msi_address_lo (u (kroute route)) = ucast (address msg)
                  \<and> ucast (msi_address_hi (u (kroute route))) = drop_bit 32 (address msg)
                  \<and> msi_data (u (kroute route)) = le32_to_cpu h (data msg))
          (msi_hashtab s (aehd_hash_msi (data msg)))"

definition msi_kroute :: "host \<Rightarrow> nat \<Rightarrow> MSIMessage \<Rightarrow> aehd_irq_routing_entry" where
  "msi_kroute h virq msg =
     \<lparr> gsi = virq, entry_type = AEHD_IRQ_ROUTING_MSI, entry_flags = 0,
       u = U_msi (ucast (address msg)) (ucast (drop_bit 32 (address msg)))
                 (le32_to_cpu h (data msg)) \<rparr>"

definition aehd_irqchip_send_msi ::
  "host \<Rightarrow> AEHDState \<Rightarrow> MSIMessage \<Rightarrow> event list \<Rightarrow> error + int \<times> AEHDState \<times> event list" where
  "aehd_irqchip_send_msi h s msg tr =
     (let signal = (\<lambda>route s tr.
            if entry_type (kroute route) \<noteq> AEHD_IRQ_ROUTING_MSI then Inl AssertionFailed
            else (case aehd_set_irq h (gsi (kroute route)) 1 tr of
                    Inl e \<Rightarrow> Inl e
                  | Inr (status, tr1) \<Rightarrow> Inr (status, s, tr1)))
      in case aehd_lookup_msi_route h s msg of
           Some route \<Rightarrow> signal route s tr
         | None \<Rightarrow>
             (let (virq, s1, tr1) = aehd_irqchip_get_virq s tr
              in if virq < 0 then Inr (virq, s1, tr1)
                 else
                  (let route = \<lparr> kroute = msi_kroute h (nat virq) msg \<rparr>;
                       s2 = aehd_add_routing_entry s1 (kroute route)
                   in case aehd_irqchip_commit_routes h s2 tr1 of
                        Inl e \<Rightarrow> Inl e
                      | Inr tr2 \<Rightarrow>
                          (let hash = aehd_hash_msi (data msg);
                               s3 = s2 \<lparr> msi_hashtab :=
                                           (msi_hashtab s2) (hash := msi_hashtab s2 hash @ [route]) \<rparr>
                           in signal route s3 tr2))))"

text \<open>
  \<open>aehd_irqchip_add_msi_route\<close>; \<open>dev_msg\<close> is \<open>pci_get_msi_message(dev, vector)\<close> when a
  device is given and \<open>None\<close> when \<open>dev\<close> is \<open>NULL\<close>.
\<close>

definition aehd_irqchip_add_msi_route ::
  "host \<Rightarrow> AEHDState \<Rightarrow> MSIMessage option \<Rightarrow> event list
     \<Rightarrow> error + int \<times> AEHDState \<times> event list" where
  "aehd_irqchip_add_msi_route h s dev_msg tr =
     (let msg = (case dev_msg of Some m \<Rightarrow> m | None \<Rightarrow> \<lparr> address = 0, data = 0 \<rparr>);
          (virq, s1, tr1) = aehd_irqchip_get_virq s tr
      in if virq < 0 then Inr (virq, s1, tr1)
         else
          (let kr = msi_kroute h (nat virq) msg;
               s2 = aehd_add_routing_entry s1 kr;
               tr2 = tr1 @ [Arch_add_msi_route_post kr]
           in case aehd_irqchip_commit_routes h s2 tr2 of
                Inl e \<Rightarrow> Inl e
              | Inr tr3 \<Rightarrow> Inr (virq, s2, tr3)))"

definition aehd_irqchip_update_msi_route ::
  "host \<Rightarrow> AEHDState \<Rightarrow> nat \<Rightarrow> MSIMessage \<Rightarrow> int \<times> AEHDState" where
  "aehd_irqchip_update_msi_route h s virq msg = aehd_update_routing_entry s (msi_kroute h virq msg)"

text \<open>
  The state of the routing table after \<open>aehd_init_irq_routing\<close> on a zeroed
  \<open>AEHDState\<close>, for a driver that reports the routing capability \<open>cap\<close>.
\<close>

definition zeroed_state :: AEHDState where
  "zeroed_state =
     \<lparr> nr_slots = 0, memory_listener = \<lparr> slots = [], as_id = 0 \<rparr>, gsi_count = 0,
       used_gsi_bitmap = {}, irq_routes = [], nr_allocated_irq_routes = 0,
       msi_hashtab = (\<lambda>_. []) \<rparr>"

definition initial_state :: "int \<Rightarrow> AEHDState" where
  "initial_state cap = aehd_init_irq_routing zeroed_state cap"

text \<open>
  The routing states reachable from the initial one through the operations on the table,
  where an irqchip route is only added for a GSI below the capacity that is not marked
  allocated, and a GSI that is released is below the capacity.  An operation that aborts
  reaches nothing.
\<close>

inductive reachable :: "host \<Rightarrow> int \<Rightarrow> AEHDState \<times> event list \<Rightarrow> bool" for h :: host and cap :: int where
  init: "reachable h cap (initial_state cap, [])"
| allocate_gsi:
    "reachable h cap (s, tr) \<Longrightarrow> aehd_irqchip_get_virq s tr = (r, s', tr')
       \<Longrightarrow> reachable h cap (s', tr')"
| add_irqchip_route:
    "reachable h cap (s, tr) \<Longrightarrow> irq < gsi_count s \<Longrightarrow> irq \<notin> used_gsi_bitmap s
       \<Longrightarrow> aehd_irqchip_add_irq_route s irq chip pin = Inr s'
       \<Longrightarrow> reachable h cap (s', tr)"
| add_msi_route:
    "reachable h cap (s, tr) \<Longrightarrow> aehd_irqchip_add_msi_route h s dev_msg tr = Inr (r, s', tr')
       \<Longrightarrow> reachable h cap (s', tr')"
| update_route:
    "reachable h cap (s, tr) \<Longrightarrow> aehd_irqchip_update_msi_route h s virq msg = (r, s')
       \<Longrightarrow> reachable h cap (s', tr)"
| release_route:
    "reachable h cap (s, tr) \<Longrightarrow> virq < gsi_count s
       \<Longrightarrow> aehd_irqchip_release_virq s virq tr = (s', tr')
       \<Longrightarrow> reachable h cap (s', tr')"
| send_msi:
    "reachable h cap (s, tr) \<Longrightarrow> aehd_irqchip_send_msi h s msg tr = Inr (r, s', tr')
       \<Longrightarrow> reachable h cap (s', tr')"
| flush:
    "reachable h cap (s, tr) \<Longrightarrow> aehd_flush_dynamic_msi_routes s tr = (s', tr')
       \<Longrightarrow> reachable h cap (s', tr')"
| commit:
    "reachable h cap (s, tr) \<Longrightarrow> aehd_irqchip_commit_routes h s tr = Inr tr'
       \<Longrightarrow> reachable h cap (s, tr')"

text \<open>
  What the proof of the invariant carries along: the entries have pairwise distinct GSIs,
  each marked in the bitmap and below the capacity.
\<close>

definition routing_inv :: "AEHDState \<Rightarrow> bool" where
  "routing_inv s =
     (distinct (map gsi (irq_routes s))
      \<and> gsi ` set (irq_routes s) \<subseteq> used_gsi_bitmap s
      \<and> gsi ` set (irq_routes s) \<subseteq> {..<gsi_count s})"

subsection \<open>VM creation\<close>

text \<open>
  The create-VM step of \<open>aehd_init\<close>: \<open>do { ret = aehd_ioctl(s, AEHD_CREATE_VM, ...); }
  while (ret == -EINTR);\<close>.  The loop is written once for any control call, given as the
  function from the trace to the result code, the reply and the new trace; \<open>aehd_init\<close>
  runs it on the create-VM request.  The loop has no bound of its own, so not returning is
  the value \<open>None\<close>.
\<close>

partial_function (option) retry_while_EINTR ::
  "(event list \<Rightarrow> int \<times> reply \<times> event list) \<Rightarrow> event list \<Rightarrow> (int \<times> event list) option" where
  "retry_while_EINTR call tr =
     (case call tr of
        (ret, rep, tr1) \<Rightarrow> if ret = - EINTR then retry_while_EINTR call tr1 else Some (ret, tr1))"

definition aehd_init_create_vm :: "host \<Rightarrow> event list \<Rightarrow> (int \<times> event list) option" where
  "aehd_init_create_vm h tr = retry_while_EINTR (aehd_ioctl h AEHD_CREATE_VM) tr"

text \<open>The trace after \<open>n\<close> attempts of a control call.\<close>

definition trace_after_attempts ::
  "(event list \<Rightarrow> int \<times> reply \<times> event list) \<Rightarrow> nat \<Rightarrow> event list \<Rightarrow> event list" where
  "trace_after_attempts call n tr = ((\<lambda>t. snd (snd (call t))) ^^ n) tr"

subsection \<open>vCPU register synchronisation\<close>

record CPUState =
  vcpu_dirty :: bool
  exit_request :: bool

definition do_aehd_cpu_synchronize_state :: "CPUState \<Rightarrow> event list \<Rightarrow> CPUState \<times> event list" where
  "do_aehd_cpu_synchronize_state cpu tr =
     (if \<not> vcpu_dirty cpu then (cpu \<lparr> vcpu_dirty := True \<rparr>, tr @ [Arch_get_registers])
      else (cpu, tr))"

text \<open>\<open>run_on_cpu\<close> runs the function on the thread of the vCPU and waits for it.\<close>

definition aehd_cpu_synchronize_state :: "CPUState \<Rightarrow> event list \<Rightarrow> CPUState \<times> event list" where
  "aehd_cpu_synchronize_state cpu tr =
     (if \<not> vcpu_dirty cpu then do_aehd_cpu_synchronize_state cpu tr else (cpu, tr))"

definition do_aehd_cpu_synchronize_post_reset :: "CPUState \<Rightarrow> event list \<Rightarrow> CPUState \<times> event list" where
  "do_aehd_cpu_synchronize_post_reset cpu tr =
     (cpu \<lparr> vcpu_dirty := False \<rparr>, tr @ [Arch_put_registers AEHD_PUT_RESET_STATE])"

definition do_aehd_cpu_synchronize_post_init :: "CPUState \<Rightarrow> event list \<Rightarrow> CPUState \<times> event list" where
  "do_aehd_cpu_synchronize_post_init cpu tr =
     (cpu \<lparr> vcpu_dirty := False \<rparr>, tr @ [Arch_put_registers AEHD_PUT_FULL_STATE])"

definition do_aehd_cpu_synchronize_pre_loadvm :: "CPUState \<Rightarrow> event list \<Rightarrow> CPUState \<times> event list" where
  "do_aehd_cpu_synchronize_pre_loadvm cpu tr = (cpu \<lparr> vcpu_dirty := True \<rparr>, tr)"

subsection \<open>Execution dispatch loop\<close>

datatype exit_reason =
    AEHD_EXIT_IO | AEHD_EXIT_MMIO | AEHD_EXIT_IRQ_WINDOW_OPEN | AEHD_EXIT_INTR
  | AEHD_EXIT_SHUTDOWN | AEHD_EXIT_UNKNOWN | AEHD_EXIT_INTERNAL_ERROR | AEHD_EXIT_SYSTEM_EVENT
  | AEHD_EXIT_other nat

datatype system_event =
    AEHD_SYSTEM_EVENT_SHUTDOWN | AEHD_SYSTEM_EVENT_RESET | AEHD_SYSTEM_EVENT_CRASH
  | AEHD_SYSTEM_EVENT_other nat

datatype suberror = AEHD_INTERNAL_ERROR_EMULATION | AEHD_INTERNAL_ERROR_other nat

datatype io_direction = AEHD_EXIT_IO_IN | AEHD_EXIT_IO_OUT

text \<open>The fields of the shared \<open>struct aehd_run\<close> that the loop reads.\<close>

record aehd_run =
  exit_reason :: exit_reason
  io_port :: "16 word"
  io_dir :: io_direction
  io_size :: nat
  io_count :: nat
  mmio_phys_addr :: "64 word"
  mmio_len :: nat
  mmio_is_write :: bool
  internal_suberror :: suberror
  system_event_type :: system_event

text \<open>
  The architecture hooks the loop consults and the contents of the run structure when a
  run request returns, each in view of the trace so far.
\<close>

record arch =
  aehd_arch_process_async_events :: "event list \<Rightarrow> bool"
  aehd_arch_stop_on_emulation_error :: "event list \<Rightarrow> bool"
  aehd_arch_handle_exit :: "event list \<Rightarrow> aehd_run \<Rightarrow> int"
  run_struct :: "event list \<Rightarrow> aehd_run"

definition aehd_handle_io :: "16 word \<Rightarrow> io_direction \<Rightarrow> nat \<Rightarrow> nat \<Rightarrow> event list \<Rightarrow> event list" where
  "aehd_handle_io port direction sz cnt tr =
     tr @ replicate cnt (Address_space_rw_io port sz (direction = AEHD_EXIT_IO_OUT))"

definition aehd_handle_internal_error :: "arch \<Rightarrow> aehd_run \<Rightarrow> event list \<Rightarrow> int \<times> event list" where
  "aehd_handle_internal_error a run tr =
     (if internal_suberror run = AEHD_INTERNAL_ERROR_EMULATION
         \<and> \<not> aehd_arch_stop_on_emulation_error a tr
      then (EXCP_INTERRUPT, tr @ [Cpu_dump_state])
      else (- 1, tr))"

text \<open>The \<open>switch (run->exit_reason)\<close> of the loop body: the result code and the effects.\<close>

definition aehd_cpu_exec_dispatch ::
  "arch \<Rightarrow> aehd_run \<Rightarrow> CPUState \<times> event list \<Rightarrow> int \<times> CPUState \<times> event list" where
  "aehd_cpu_exec_dispatch a run st =
     (let (cpu1, tr5) = st
      in case exit_reason run of
           AEHD_EXIT_IO \<Rightarrow>
             (0, cpu1, aehd_handle_io (io_port run) (io_dir run) (io_size run) (io_count run) tr5)
         | AEHD_EXIT_MMIO \<Rightarrow>
             (0, cpu1, tr5 @ [Address_space_rw_memory (mmio_phys_addr run) (mmio_len run)
                                (mmio_is_write run)])
         | AEHD_EXIT_IRQ_WINDOW_OPEN \<Rightarrow> (EXCP_INTERRUPT, cpu1, tr5)
         | AEHD_EXIT_INTR \<Rightarrow> (EXCP_INTERRUPT, cpu1, tr5)
         | AEHD_EXIT_SHUTDOWN \<Rightarrow> (EXCP_INTERRUPT, cpu1, tr5 @ [Reset_request])
         | AEHD_EXIT_UNKNOWN \<Rightarrow> (- 1, cpu1, tr5)
         | AEHD_EXIT_INTERNAL_ERROR \<Rightarrow>
             (let (ret, tr6) = aehd_handle_internal_error a run tr5 in (ret, cpu1, tr6))
         | AEHD_EXIT_SYSTEM_EVENT \<Rightarrow>
             (case system_event_type run of
                AEHD_SYSTEM_EVENT_SHUTDOWN \<Rightarrow> (EXCP_INTERRUPT, cpu1, tr5 @ [Shutdown_request])
              | AEHD_SYSTEM_EVENT_RESET \<Rightarrow> (EXCP_INTERRUPT, cpu1, tr5 @ [Reset_request])
              | AEHD_SYSTEM_EVENT_CRASH \<Rightarrow>
                  (let (cpu2, tr6) = aehd_cpu_synchronize_state cpu1 tr5
                   in (0, cpu2, tr6 @ [Guest_panicked]))
              | AEHD_SYSTEM_EVENT_other _ \<Rightarrow> (aehd_arch_handle_exit a tr5 run, cpu1, tr5))
         | AEHD_EXIT_other _ \<Rightarrow> (aehd_arch_handle_exit a tr5 run, cpu1, tr5))"

text \<open>
  The part of the loop body before the run request: the registers are pushed when the vCPU
  is dirty, the pre-run hook runs, and the vCPU is kicked when an exit was requested.
\<close>

definition aehd_cpu_exec_prerun :: "CPUState \<times> event list \<Rightarrow> CPUState \<times> event list" where
  "aehd_cpu_exec_prerun st =
     (let (cpu, tr) = st;
          (cpu1, tr1) = (if vcpu_dirty cpu
                         then (cpu \<lparr> vcpu_dirty := False \<rparr>,
                               tr @ [Arch_put_registers AEHD_PUT_RUNTIME_STATE])
                         else (cpu, tr));
          tr2 = tr1 @ [Arch_pre_run];
          tr3 = (if exit_request cpu1 then tr2 @ [Cpu_kick] else tr2)
      in (cpu1, tr3))"

text \<open>One pass through the body of the \<open>do ... while (ret == 0)\<close> loop of \<open>aehd_cpu_exec\<close>.\<close>

definition aehd_cpu_exec_body ::
  "host \<Rightarrow> arch \<Rightarrow> CPUState \<times> event list \<Rightarrow> int \<times> CPUState \<times> event list" where
  "aehd_cpu_exec_body h a st =
     (let (cpu1, tr3) = aehd_cpu_exec_prerun st;
          (run_ret, _, tr4) = aehd_vcpu_ioctl h AEHD_RUN tr3;
          run = run_struct a tr4;
          tr5 = tr4 @ [Arch_post_run]
      in if run_ret < 0 then
           (if run_ret = - EINTR \<or> run_ret = - EAGAIN then (EXCP_INTERRUPT, cpu1, tr5)
            else (- 1, cpu1, tr5))
         else aehd_cpu_exec_dispatch a run (cpu1, tr5))"

text \<open>The loop itself: it may never return, in which case the value is \<open>None\<close>.\<close>

partial_function (option) aehd_cpu_exec_loop ::
  "host \<Rightarrow> arch \<Rightarrow> CPUState \<times> event list \<Rightarrow> (int \<times> CPUState \<times> event list) option" where
  "aehd_cpu_exec_loop h a st =
     (case aehd_cpu_exec_body h a st of
        (ret, cpu1, tr1) \<Rightarrow> if ret = 0 then aehd_cpu_exec_loop h a (cpu1, tr1)
                            else Some (ret, cpu1, tr1))"

definition aehd_cpu_exec ::
  "host \<Rightarrow> arch \<Rightarrow> CPUState \<Rightarrow> event list \<Rightarrow> (int \<times> CPUState \<times> event list) option" where
  "aehd_cpu_exec h a cpu tr =
     (if aehd_arch_process_async_events a tr
      then Some (EXCP_HLT, cpu \<lparr> exit_request := False \<rparr>, tr)
      else (case aehd_cpu_exec_loop h a (cpu, tr) of
              None \<Rightarrow> None
            | Some (ret, cpu1, tr1) \<Rightarrow>
                (let tr2 = (if ret < 0 then tr1 @ [Cpu_dump_state, Vm_stop] else tr1)
                 in Some (ret, cpu1 \<lparr> exit_request := False \<rparr>, tr2))))"

text \<open>The vCPU and the trace after \<open>n\<close> passes through the loop body.\<close>

definition exec_state_after ::
  "host \<Rightarrow> arch \<Rightarrow> nat \<Rightarrow> CPUState \<times> event list \<Rightarrow> CPUState \<times> event list" where
  "exec_state_after h a n st = ((\<lambda>st. snd (aehd_cpu_exec_body h a st)) ^^ n) st"

text \<open>
  Whether the run request of the pass that starts in \<open>st\<close> is accepted by the driver, and
  the run structure that pass reads after the request.
\<close>

definition run_accepted :: "host \<Rightarrow> CPUState \<times> event list \<Rightarrow> bool" where
  "run_accepted h st =
     io_ok (DeviceIoControl h (snd (aehd_cpu_exec_prerun st)) Vcpu_fd AEHD_RUN)"

definition run_exit :: "arch \<Rightarrow> CPUState \<times> event list \<Rightarrow> aehd_run" where
  "run_exit a st = run_struct a (snd (aehd_cpu_exec_prerun st) @ [Ioctl Vcpu_fd AEHD_RUN])"

subsection \<open>The registered regions of a slot table\<close>

text \<open>A region gets a slot when it is RAM, or read-only or a ROM device and in ROMD mode.\<close>

definition region_gets_slot :: "MemoryRegion \<Rightarrow> bool" where
  "region_gets_slot m = (is_ram m \<or> ((readonly m \<or> rom_device m) \<and> romd_mode m))"

text \<open>
  The slot that \<open>on_region_add\<close> is to create in place \<open>i\<close> for a section with the
  aligned range \<open>(start, sz)\<close>: the slot number stays, the other fields come from the
  section.
\<close>

definition added_slot ::
  "AEHDState \<Rightarrow> nat \<Rightarrow> MemoryRegionSection \<Rightarrow> hwaddr \<Rightarrow> hwaddr \<Rightarrow> AEHDSlot" where
  "added_slot s i section start sz =
     (the_slot s i)
       \<lparr> start_addr := start, memory_size := sz,
         ram := ram_ptr (mr section) + offset_within_region section
                  + (start - offset_within_address_space section),
         flags := aehd_mem_flags (mr section) \<rparr>"

text \<open>
  The regions registered in a table, by history: \<open>registered h (s, tr) reg\<close> holds when
  the table of \<open>s\<close> was reached from a table of free slots by region adds and region dels
  that returned, each add for a section whose aligned range was not registered, and
  \<open>reg\<close> maps the aligned range of every region that was added and not deleted since to
  the place and the slot its add was to create.
\<close>

inductive registered ::
  "host \<Rightarrow> AEHDState \<times> event list \<Rightarrow> (hwaddr \<times> hwaddr \<rightharpoonup> nat \<times> AEHDSlot) \<Rightarrow> bool"
  for h :: host where
  free_table:
    "list_all (\<lambda>m. memory_size m = 0) (take (nr_slots s) (slots (memory_listener s)))
       \<Longrightarrow> registered h (s, tr) Map.empty"
| region_added:
    "registered h (s, tr) reg \<Longrightarrow> aehd_align_section h section = (sz, start) \<Longrightarrow> sz \<noteq> 0
       \<Longrightarrow> region_gets_slot (mr section) \<Longrightarrow> reg (start, sz) = None
       \<Longrightarrow> aehd_get_free_slot s (memory_listener s) = Some i
       \<Longrightarrow> aehd_region_add h s section tr = Inr (s', tr')
       \<Longrightarrow> registered h (s', tr') (reg ((start, sz) \<mapsto> (i, added_slot s i section start sz)))"
| region_deleted:
    "registered h (s, tr) reg \<Longrightarrow> aehd_align_section h section = (sz, start) \<Longrightarrow> sz \<noteq> 0
       \<Longrightarrow> is_ram (mr section) \<or> readonly (mr section) \<or> rom_device (mr section)
       \<Longrightarrow> aehd_region_del h s section tr = Inr (s', tr')
       \<Longrightarrow> registered h (s', tr') (reg ((start, sz) := None))"

subsection \<open>Page rounding in natural numbers\<close>

text \<open>
  Rounding as the specification words it: \<open>page_round_up n p\<close> is the least multiple of
  \<open>p\<close> that is at least \<open>n\<close>, \<open>page_round_down n p\<close> the greatest multiple of \<open>p\<close>
  that is at most \<open>n\<close>.
\<close>

definition page_round_up :: "nat \<Rightarrow> nat \<Rightarrow> nat" where
  "page_round_up n p = ((n + p - 1) div p) * p"

definition page_round_down :: "nat \<Rightarrow> nat \<Rightarrow> nat" where
  "page_round_down n p = (n div p) * p"

subsection \<open>Example hosts and states\<close>

definition ok_reply :: reply where
  "ok_reply = \<lparr> io_ok = True, io_last_error = ERROR_OTHER 0, io_status = 0, io_bitmap = [] \<rparr>"

definition failed_reply :: "win32_error \<Rightarrow> reply" where
  "failed_reply e = \<lparr> io_ok = False, io_last_error = e, io_status = 0, io_bitmap = [] \<rparr>"

text \<open>A host with 4 KiB pages whose driver accepts every request.\<close>

definition accepting_host :: host where
  "accepting_host =
     \<lparr> DeviceIoControl = (\<lambda>tr fd req. ok_reply),
       qemu_real_host_page_size = 4096,
       le32_to_cpu = (\<lambda>w. w) \<rparr>"

text \<open>A host whose driver fails the first request it sees and accepts every later one.\<close>

definition first_request_fails_host :: "win32_error \<Rightarrow> host" where
  "first_request_fails_host e =
     \<lparr> DeviceIoControl = (\<lambda>tr fd req. if tr = [] then failed_reply e else ok_reply),
       qemu_real_host_page_size = 4096,
       le32_to_cpu = (\<lambda>w. w) \<rparr>"

definition example_ram :: MemoryRegion where
  "example_ram = \<lparr> readonly = False, rom_device = False, romd_mode = True, is_ram = True,
                   dirty_log_mask = 0, ram_ptr = 0x7f0000000000, ram_addr = 0 \<rparr>"

definition example_section :: MemoryRegionSection where
  "example_section = \<lparr> mr = example_ram, offset_within_region = 0,
                       offset_within_address_space = 0x1234, section_size = 0x3000 \<rparr>"

definition example_listener :: AEHDMemoryListener where
  "example_listener = \<lparr> slots = [], as_id = 0 \<rparr>"

definition readonly_slot :: AEHDSlot where
  "readonly_slot = \<lparr> start_addr = 0x1000, memory_size = 0x1000, ram = 0x7f0000000000,
                      slot = 0, flags = AEHD_MEM_READONLY \<rparr>"

definition example_cpu :: "bool \<Rightarrow> CPUState" where
  "example_cpu d = \<lparr> vcpu_dirty = d, exit_request = False \<rparr>"

text \<open>A routing state given by its five routing fields; the memory listener is empty.\<close>

definition routing_state ::
  "nat \<Rightarrow> nat set \<Rightarrow> aehd_irq_routing_entry list \<Rightarrow> nat \<Rightarrow> (nat \<Rightarrow> AEHDMSIRoute list) \<Rightarrow> AEHDState" where
  "routing_state n bitmap routes allocated tab =
     \<lparr> nr_slots = 0, memory_listener = \<lparr> slots = [], as_id = 0 \<rparr>, gsi_count = n,
       used_gsi_bitmap = bitmap, irq_routes = routes, nr_allocated_irq_routes = allocated,
       msi_hashtab = tab \<rparr>"

definition empty_hashtab :: "nat \<Rightarrow> AEHDMSIRoute list" where
  "empty_hashtab = (\<lambda>_. [])"

definition example_msg :: MSIMessage where
  "example_msg = \<lparr> address = 0xfee00000, data = 0x4041 \<rparr>"

definition example_msi_entry :: "nat \<Rightarrow> aehd_irq_routing_entry" where
  "example_msi_entry g = msi_kroute accepting_host g example_msg"

subsection \<open>Auxiliary notions and example states of the routing table\<close>

text \<open>The routes in the MSI cache, bucket by bucket, in the order a flush visits them.\<close>

definition cached_routes :: "AEHDState \<Rightarrow> AEHDMSIRoute list" where
  "cached_routes s = concat (map (msi_hashtab s) [0..<AEHD_MSI_HASHTAB_SIZE])"

definition pic0 :: aehd_irq_routing_entry where "pic0 = irqchip_kroute 0 0 0"
definition pic1 :: aehd_irq_routing_entry where "pic1 = irqchip_kroute 1 0 1"
definition ioapic0 :: aehd_irq_routing_entry where "ioapic0 = irqchip_kroute 0 1 0"

definition example_route :: AEHDMSIRoute where
  "example_route = \<lparr> kroute = example_msi_entry 0 \<rparr>"

text \<open>
  Capacity 3 and three entries: an irqchip route and a cached MSI route on GSI 0, and an
  irqchip route on GSI 1 between them.
\<close>

definition stale_state :: AEHDState where
  "stale_state = routing_state 3 {0, 1} [ioapic0, pic1, example_msi_entry 0] 64
                   (empty_hashtab (65 := [example_route]))"

text \<open>Capacity 3 with irqchip routes on GSI 0 and 1, before and after an MSI was sent.\<close>

definition two_irq_state :: AEHDState where
  "two_irq_state = routing_state 3 {0, 1} [ioapic0, pic1] 64 empty_hashtab"

definition full_state :: AEHDState where
  "full_state = routing_state 3 {0, 1, 2} [ioapic0, pic1, example_msi_entry 2] 64
                  (empty_hashtab (65 := [\<lparr> kroute = example_msi_entry 2 \<rparr>]))"

subsection \<open>Example runs and slot tables\<close>

definition example_run :: "exit_reason \<Rightarrow> aehd_run" where
  "example_run r =
     \<lparr> exit_reason = r, io_port = 0x3f8, io_dir = AEHD_EXIT_IO_OUT, io_size = 1, io_count = 2,
       mmio_phys_addr = 0xfee00000, mmio_len = 4, mmio_is_write = True,
       internal_suberror = AEHD_INTERNAL_ERROR_other 0,
       system_event_type = AEHD_SYSTEM_EVENT_other 0 \<rparr>"

definition runs_before :: "event list \<Rightarrow> nat" where
  "runs_before tr = length (filter (\<lambda>e. e = Ioctl Vcpu_fd AEHD_RUN) tr)"

text \<open>The first run request ends in an IO exit, every later one in the given exit.\<close>

definition io_then :: "exit_reason \<Rightarrow> arch" where
  "io_then r =
     \<lparr> aehd_arch_process_async_events = (\<lambda>tr. False),
       aehd_arch_stop_on_emulation_error = (\<lambda>tr. True),
       aehd_arch_handle_exit = (\<lambda>tr run. 0),
       run_struct = (\<lambda>tr. if runs_before tr = 1 then example_run AEHD_EXIT_IO else example_run r) \<rparr>"

definition first_pass_trace :: "event list" where
  "first_pass_trace =
     [Arch_put_registers AEHD_PUT_RUNTIME_STATE, Arch_pre_run, Ioctl Vcpu_fd AEHD_RUN,
      Arch_post_run, Address_space_rw_io 0x3f8 1 True, Address_space_rw_io 0x3f8 1 True]"

definition two_slot_state :: AEHDState where
  "two_slot_state = aehd_memory_listener_register (zeroed_state \<lparr> nr_slots := 2 \<rparr>) 0"



text \<open>A host with 4 KiB pages whose driver fails every request with the given error.\<close>

definition refusing_host :: "win32_error \<Rightarrow> host" where
  "refusing_host e =
     \<lparr> DeviceIoControl = (\<lambda>tr fd req. failed_reply e),
       qemu_real_host_page_size = 4096,
       le32_to_cpu = (\<lambda>w. w) \<rparr>"

text \<open>A second RAM section, one page at 64 KiB.\<close>

definition second_section :: MemoryRegionSection where
  "second_section = \<lparr> mr = example_ram, offset_within_region = 0x10000,
                      offset_within_address_space = 0x10000, section_size = 0x1000 \<rparr>"

section \<open>Properties\<close>

subsection \<open>Control-call transport\<close>

lemma device_io_control_trace:
  "snd (snd (device_io_control h fd req tr)) = tr @ [Ioctl fd req]"
  by (simp add: device_io_control_def Let_def)

lemma aehd_ioctl_codes:
  "fst (aehd_ioctl h req tr) \<in> {0, - E2BIG, - EAGAIN, - EFAULT}"
  by (simp add: aehd_ioctl_def device_io_control_def Let_def errno_of_last_error_def
        split: win32_error.split)

lemma aehd_ioctl_not_EINTR: "fst (aehd_ioctl h req tr) \<noteq> - EINTR"
  using aehd_ioctl_codes [of h req tr]
  by (auto simp: EINTR_def E2BIG_def EAGAIN_def EFAULT_def)

subsection \<open>Memory slot manager\<close>

text \<open>
  C1 as stated fails at two inputs.  Registering a non-empty slot whose flags are read-only
  issues two requests, the first with size zero; and an update that clears the read-only
  flag of a read-only, non-empty slot issues a single request.
\<close>

theorem set_user_memory_region_two_phase_counterexample:
  "snd (aehd_set_user_memory_region accepting_host example_listener readonly_slot []) =
     [Ioctl Vm_fd (AEHD_SET_USER_MEMORY_REGION (slot_region example_listener readonly_slot 0)),
      Ioctl Vm_fd (AEHD_SET_USER_MEMORY_REGION (slot_region example_listener readonly_slot 0x1000))]
   \<and> snd (snd (aehd_slot_update_flags accepting_host
        \<lparr> nr_slots = 1, memory_listener = \<lparr> slots = [readonly_slot], as_id = 0 \<rparr>,
          gsi_count = 0, used_gsi_bitmap = {}, irq_routes = [], nr_allocated_irq_routes = 0,
          msi_hashtab = (\<lambda>_. []) \<rparr> 0 example_ram [])) =
     [Ioctl Vm_fd (AEHD_SET_USER_MEMORY_REGION
        (slot_region example_listener (readonly_slot \<lparr> flags := 0 \<rparr>) 0x1000))]"
  by (simp add: aehd_set_user_memory_region_def aehd_slot_update_flags_def aehd_vm_ioctl_def
        device_io_control_def Let_def slot_region_def readonly_slot_def example_listener_def
        accepting_host_def the_slot_def set_slot_def aehd_mem_flags_def example_ram_def
        memory_region_is_romd_def AEHD_MEM_READONLY_def AEHD_MEM_LOG_DIRTY_PAGES_def)

text \<open>
  C1, amended.  \<open>aehd_set_user_memory_region\<close> issues the size-zero request followed by
  the full-size request exactly when the slot is non-empty and the read-only flag is set in
  the flags of the slot as they are now; in every other case it issues the full-size
  request alone.
\<close>

theorem set_user_memory_region_calls:
  "snd (aehd_set_user_memory_region h gml sl tr) =
     tr @ (if memory_size sl \<noteq> 0 \<and> flags sl AND AEHD_MEM_READONLY \<noteq> 0
           then [Ioctl Vm_fd (AEHD_SET_USER_MEMORY_REGION (slot_region gml sl 0)),
                 Ioctl Vm_fd (AEHD_SET_USER_MEMORY_REGION (slot_region gml sl (memory_size sl)))]
           else [Ioctl Vm_fd (AEHD_SET_USER_MEMORY_REGION (slot_region gml sl (memory_size sl)))])"
  by (simp add: aehd_set_user_memory_region_def aehd_vm_ioctl_def device_io_control_def
        Let_def slot_region_def split: prod.split)

text \<open>
  C10.  On the two-phase path (slot non-empty, read-only flag set) the value returned is
  the result of the second, full-size request, which is issued after the size-zero request
  whatever that one returned.
\<close>

theorem set_user_memory_region_result:
  assumes "memory_size sl \<noteq> 0" and "flags sl AND AEHD_MEM_READONLY \<noteq> 0"
  shows "aehd_set_user_memory_region h gml sl tr =
           (fst (aehd_vm_ioctl h (AEHD_SET_USER_MEMORY_REGION (slot_region gml sl (memory_size sl)))
                   (tr @ [Ioctl Vm_fd (AEHD_SET_USER_MEMORY_REGION (slot_region gml sl 0))])),
            tr @ [Ioctl Vm_fd (AEHD_SET_USER_MEMORY_REGION (slot_region gml sl 0)),
                  Ioctl Vm_fd (AEHD_SET_USER_MEMORY_REGION (slot_region gml sl (memory_size sl)))])"
  using assms
  by (simp add: aehd_set_user_memory_region_def aehd_vm_ioctl_def device_io_control_def
        Let_def slot_region_def split: prod.split)

text \<open>
  The first request fails with \<open>-EFAULT\<close>, the second succeeds, and the function returns 0.
\<close>

theorem set_user_memory_region_result_witness:
  "memory_size readonly_slot \<noteq> 0 \<and> flags readonly_slot AND AEHD_MEM_READONLY \<noteq> 0
   \<and> fst (aehd_vm_ioctl (first_request_fails_host (ERROR_OTHER 5))
            (AEHD_SET_USER_MEMORY_REGION (slot_region example_listener readonly_slot 0)) []) = - EFAULT
   \<and> fst (aehd_set_user_memory_region (first_request_fails_host (ERROR_OTHER 5))
            example_listener readonly_slot []) = 0"
proof -
  have a: "memory_size readonly_slot \<noteq> 0"
    by (simp add: readonly_slot_def)
  have b: "flags readonly_slot AND AEHD_MEM_READONLY \<noteq> 0"
    by (simp add: readonly_slot_def AEHD_MEM_READONLY_def)
  show ?thesis
    using a b
      set_user_memory_region_result [OF a b, of "first_request_fails_host (ERROR_OTHER 5)"
        example_listener "[]"]
    by (simp add: aehd_vm_ioctl_def device_io_control_def Let_def first_request_fails_host_def
          failed_reply_def ok_reply_def errno_of_last_error_def)
qed

subsection \<open>vCPU register synchronisation\<close>

text \<open>
  C6 as stated fails for a vCPU whose dirty flag is already set: two calls of
  \<open>synchronize_state\<close> pull the registers not once but never.
\<close>

theorem synchronize_state_twice_counterexample:
  "count_list (snd (aehd_cpu_synchronize_state
                      (fst (aehd_cpu_synchronize_state (example_cpu True) []))
                      (snd (aehd_cpu_synchronize_state (example_cpu True) []))))
      Arch_get_registers = 0"
  by (simp add: aehd_cpu_synchronize_state_def example_cpu_def)

text \<open>
  C6, amended.  Two calls of \<open>synchronize_state\<close> in a row pull the registers at most
  once: the first call pulls exactly when the dirty flag is false and leaves it true; the
  second call pulls nothing and changes nothing.  The same holds of the function that runs
  on the thread of the vCPU.
\<close>

theorem synchronize_state_twice:
  "(let (cpu1, tr1) = aehd_cpu_synchronize_state cpu tr;
        (cpu2, tr2) = aehd_cpu_synchronize_state cpu1 tr1
    in tr1 = tr @ (if vcpu_dirty cpu then [] else [Arch_get_registers])
     \<and> cpu1 = cpu \<lparr> vcpu_dirty := True \<rparr>
     \<and> cpu2 = cpu1 \<and> tr2 = tr1
     \<and> count_list tr2 Arch_get_registers =
         count_list tr Arch_get_registers + (if vcpu_dirty cpu then 0 else 1))
   \<and> (let (cpu1, tr1) = do_aehd_cpu_synchronize_state cpu tr;
           (cpu2, tr2) = do_aehd_cpu_synchronize_state cpu1 tr1
       in tr1 = tr @ (if vcpu_dirty cpu then [] else [Arch_get_registers])
        \<and> cpu1 = cpu \<lparr> vcpu_dirty := True \<rparr>
        \<and> cpu2 = cpu1 \<and> tr2 = tr1
        \<and> count_list tr2 Arch_get_registers =
            count_list tr Arch_get_registers + (if vcpu_dirty cpu then 0 else 1))"
  by (simp add: aehd_cpu_synchronize_state_def do_aehd_cpu_synchronize_state_def)

subsection \<open>Alignment of a section to host pages\<close>

lemma unat_and_mask64:
  fixes w :: "64 word"
  shows "unat (w AND mask k) = unat w mod 2 ^ k"
proof -
  have "unat (take_bit k w) = take_bit k (unat w)"
    by (rule unsigned_take_bit_eq)
  then show ?thesis
    by (simp only: take_bit_eq_mask [symmetric] take_bit_eq_mod)
qed

lemma and_not_mask_diff: fixes w :: "64 word" shows "w AND NOT (mask k) = w - (w AND mask k)"
proof -
  have d: "NOT w AND (w AND mask k) = 0"
    by (simp add: and.assoc [symmetric])
  have "w - (w AND mask k) = w AND NOT (w AND mask k)"
    using d by (rule disjunctive_diff_eq_and_not)
  also have "\<dots> = w AND NOT (mask k)"
    by (rule bit_eqI) (auto simp: bit_simps)
  finally show ?thesis by simp
qed

lemma unat_and_not_mask:
  fixes w :: "64 word"
  shows "unat (w AND NOT (mask k)) = page_round_down (unat w) (2 ^ k)"
proof -
  have "w AND mask k \<le> w" by (rule word_and_le2)
  then have "unat (w - (w AND mask k)) = unat w - unat (w AND mask k)"
    by (rule unat_sub)
  then show ?thesis
    by (simp add: and_not_mask_diff unat_and_mask64 minus_mod_eq_div_mult page_round_down_def)
qed

lemma round_down_mod:
  assumes "k \<le> 64"
  shows "page_round_down (x mod 2 ^ 64) (2 ^ k) = page_round_down x (2 ^ k) mod 2 ^ 64"
proof -
  obtain j where j: "64 = k + j" using assms by (metis le_Suc_ex)
  have e: "(2::nat) ^ 64 = 2 ^ k * 2 ^ j" by (simp only: j power_add)
  have "(x mod (2 ^ k * 2 ^ j)) div 2 ^ k = (x div 2 ^ k) mod 2 ^ j"
    by (simp add: mod_mult2_eq)
  then have "page_round_down (x mod 2 ^ 64) (2 ^ k) = ((x div 2 ^ k) mod 2 ^ j) * 2 ^ k"
    by (simp only: page_round_down_def e)
  also have "\<dots> = (x div 2 ^ k * 2 ^ k) mod (2 ^ j * 2 ^ k)"
    by (simp only: mult_mod_left)
  finally show ?thesis by (simp only: page_round_down_def e mult.commute)
qed

lemma unat_2p64:
  assumes "k < 64"
  shows "unat ((2::64 word) ^ k) = 2 ^ k" and "(2::64 word) ^ k \<noteq> 0"
proof -
  show nz: "(2::64 word) ^ k \<noteq> 0" using assms by simp
  then have "(0::64 word) < 2 ^ k" by (simp add: word_gt_0)
  then have "uint ((2::64 word) ^ k) = 2 ^ k" by (rule uint_2p)
  then have "nat (uint ((2::64 word) ^ k)) = nat (2 ^ k)" by (rule arg_cong)
  then show "unat ((2::64 word) ^ k) = 2 ^ k" by (simp add: nat_power_eq)
qed

lemma unat_ROUND_UP:
  assumes "k < 64"
  shows "unat (ROUND_UP n (2 ^ k)) = page_round_up (unat n) (2 ^ k) mod 2 ^ 64"
proof -
  have p: "unat ((2::64 word) ^ k - 1) = 2 ^ k - 1"
    using assms by (simp add: unat_minus_one unat_2p64)
  have "n + 2 ^ k - 1 = n + (2 ^ k - 1)" by simp
  then have "unat (n + 2 ^ k - 1) = (unat n + (2 ^ k - 1)) mod 2 ^ 64"
    by (simp only: unat_word_ariths p) simp
  then have "unat (ROUND_UP n (2 ^ k)) = page_round_down ((unat n + (2 ^ k - 1)) mod 2 ^ 64) (2 ^ k)"
    by (simp only: ROUND_UP_def minus_exp_eq_not_mask unat_and_not_mask)
  also have "\<dots> = page_round_down (unat n + (2 ^ k - 1)) (2 ^ k) mod 2 ^ 64"
    using assms by (simp only: round_down_mod less_imp_le)
  finally show ?thesis by (simp add: page_round_up_def page_round_down_def)
qed

lemma page_round_up_bounds:
  assumes "0 < p"
  shows "n \<le> page_round_up n p" and "page_round_up n p < n + p"
proof -
  have a: "(n + p - 1) div p * p = (n + p - 1) - (n + p - 1) mod p"
    by (simp add: minus_mod_eq_div_mult)
  have b: "(n + p - 1) mod p < p" using assms by simp
  show "n \<le> page_round_up n p" unfolding page_round_up_def a using b by arith
  show "page_round_up n p < n + p" unfolding page_round_up_def a using assms by arith
qed

lemma unat_align_delta:
  assumes "k < 64"
  shows "unat (ROUND_UP n (2 ^ k) - n) = page_round_up (unat n) (2 ^ k) - unat n"
proof -
  let ?R = "page_round_up (unat n) (2 ^ k)"
  have lo: "unat n \<le> ?R" and hi: "?R < unat n + 2 ^ k"
    by (simp_all add: page_round_up_bounds)
  have "unat (ROUND_UP n (2 ^ k)) = ?R mod 2 ^ 64"
    using assms by (rule unat_ROUND_UP)
  then have "word_of_nat (unat (ROUND_UP n (2 ^ k))) = (word_of_nat (?R mod 2 ^ 64) :: 64 word)"
    by simp
  moreover have "(word_of_nat (?R mod 2 ^ 64) :: 64 word) = word_of_nat ?R"
    by (simp add: word_of_nat_eq_iff take_bit_eq_mod)
  ultimately have "ROUND_UP n (2 ^ k) = word_of_nat ?R"
    by simp
  then have "ROUND_UP n (2 ^ k) - n = word_of_nat ?R - word_of_nat (unat n)"
    by simp
  also have "\<dots> = word_of_nat (?R - unat n)"
    using lo by (simp add: of_nat_diff)
  finally have "unat (ROUND_UP n (2 ^ k) - n) = (?R - unat n) mod 2 ^ 64"
    by (simp add: unat_of_nat)
  moreover have "(2::nat) ^ k < 2 ^ 64"
    using assms by (intro power_strict_increasing) simp_all
  ultimately show ?thesis using hi by simp
qed

text \<open>
  C8.  For a host page size \<open>2 ^ k\<close>, \<open>aehd_align_section\<close> stores the start rounded up
  to the page size (as a 64-bit value) and returns the rest of the extent truncated down to
  a multiple of the page size; when the rounded-up start lies beyond the end of the region
  it returns zero.
\<close>

theorem aehd_align_section_rounds:
  assumes "qemu_real_host_page_size h = 2 ^ k" and "k < 64"
  shows "(let off = unat (offset_within_address_space section);
              sz = unat (section_size section);
              up = page_round_up off (2 ^ k)
          in unat (snd (aehd_align_section h section)) = up mod 2 ^ 64
           \<and> unat (fst (aehd_align_section h section)) =
                 (if off + sz < up then 0 else page_round_down (off + sz - up) (2 ^ k)))"
proof -
  let ?off = "offset_within_address_space section"
  let ?sz = "section_size section"
  let ?up = "page_round_up (unat ?off) (2 ^ k)"
  let ?delta = "ROUND_UP ?off (2 ^ k) - ?off"
  have d: "unat ?delta = ?up - unat ?off"
    using assms(2) by (rule unat_align_delta)
  have lo: "unat ?off \<le> ?up" by (simp add: page_round_up_bounds)
  have start: "snd (aehd_align_section h section) = ROUND_UP ?off (2 ^ k)"
    by (simp add: aehd_align_section_def Let_def assms(1))
  have gt: "(?sz < ?delta) = (unat ?off + unat ?sz < ?up)"
    using d lo by (simp add: word_less_nat_alt) arith
  have sz: "unat (fst (aehd_align_section h section)) =
              (if unat ?off + unat ?sz < ?up then 0
               else page_round_down (unat ?off + unat ?sz - ?up) (2 ^ k))"
  proof (cases "?sz < ?delta")
    case True
    then show ?thesis using gt by (simp add: aehd_align_section_def Let_def assms(1))
  next
    case False
    then have le: "?delta \<le> ?sz" by simp
    have "unat (?sz - ?delta) = unat ?sz - unat ?delta" using le by (rule unat_sub)
    also have "\<dots> = unat ?off + unat ?sz - ?up" using d lo by arith
    finally have "unat ((?sz - ?delta) AND NOT (mask k)) = page_round_down (unat ?off + unat ?sz - ?up) (2 ^ k)"
      by (simp only: unat_and_not_mask)
    then show ?thesis using False gt
      by (simp add: aehd_align_section_def Let_def assms(1) qemu_real_host_page_mask_def
            minus_exp_eq_not_mask)
  qed
  show ?thesis
    unfolding Let_def using start sz assms(2) by (simp add: unat_ROUND_UP)
qed

theorem aehd_align_section_rounds_witness:
  "qemu_real_host_page_size accepting_host = 2 ^ 12 \<and> (12::nat) < 64
   \<and> unat (snd (aehd_align_section accepting_host example_section)) = 0x2000
   \<and> unat (fst (aehd_align_section accepting_host example_section)) = 0x2000"
  using aehd_align_section_rounds [of accepting_host 12 example_section]
  by (simp add: accepting_host_def example_section_def Let_def page_round_up_def
        page_round_down_def)

subsection \<open>Scans and the release loop\<close>

lemma mset_butlast_last:
  assumes "es \<noteq> []"
  shows "mset es = add_mset (last es) (mset (butlast es))"
proof -
  have "butlast es @ [last es] = es"
    using assms by (rule append_butlast_last_id)
  then have "mset es = mset (butlast es @ [last es])"
    by (rule arg_cong [where f = mset, symmetric])
  then show ?thesis by simp
qed

lemma release_step_mset:
  assumes "i < length es"
  shows "mset ((butlast es) [i := last es]) = mset es - {# es ! i #}"
proof -
  have ne: "es \<noteq> []" using assms by auto
  note m = mset_butlast_last [OF ne]
  show ?thesis
  proof (cases "i = length es - 1")
    case True
    then have "(butlast es) [i := last es] = butlast es"
      by (simp add: list_update_beyond)
    moreover have "es ! i = last es" using True ne by (simp add: last_conv_nth)
    ultimately show ?thesis using m by simp
  next
    case False
    then have i: "i < length (butlast es)" using assms by simp
    have "mset ((butlast es) [i := last es])
            = add_mset (last es) (mset (butlast es) - {# butlast es ! i #})"
      using i by (simp add: mset_update)
    moreover have "butlast es ! i = es ! i" using i by (simp add: nth_butlast)
    moreover have "es ! i \<in># mset (butlast es)"
      using i \<open>butlast es ! i = es ! i\<close> by (metis nth_mem_mset)
    ultimately show ?thesis using m by simp
  qed
qed

lemma release_loop_mset_subset: "mset (release_loop v i es) \<subseteq># mset es"
proof (induction v i es rule: release_loop.induct)
  case (1 virq i es)
  show ?case
  proof (cases "i < length es")
    case False
    then show ?thesis by (subst release_loop.simps) simp
  next
    case True
    show ?thesis
    proof (cases "gsi (es ! i) = virq")
      case m: True
      have "mset (release_loop virq (i + 1) ((butlast es) [i := last es]))
              \<subseteq># mset ((butlast es) [i := last es])"
        using "1.IH"(1) True m by simp
      also have "\<dots> \<subseteq># mset es"
        using True by (simp add: release_step_mset)
      finally show ?thesis using True m by (subst release_loop.simps) simp
    next
      case n: False
      then show ?thesis using "1.IH"(2) True by (subst release_loop.simps) simp
    qed
  qed
qed

lemma release_loop_keep:
  "filter_mset (\<lambda>e. gsi e \<noteq> v) (mset (release_loop v i es)) = filter_mset (\<lambda>e. gsi e \<noteq> v) (mset es)"
proof (induction v i es rule: release_loop.induct)
  case (1 virq i es)
  show ?case
  proof (cases "i < length es")
    case False
    then show ?thesis by (subst release_loop.simps) simp
  next
    case True
    show ?thesis
    proof (cases "gsi (es ! i) = virq")
      case m: True
      have "filter_mset (\<lambda>e. gsi e \<noteq> virq) (mset ((butlast es) [i := last es]))
              = filter_mset (\<lambda>e. gsi e \<noteq> virq) (mset es)"
        using True m by (simp add: release_step_mset)
      then show ?thesis using "1.IH"(1) True m by (subst release_loop.simps) simp
    next
      case n: False
      then show ?thesis using "1.IH"(2) True by (subst release_loop.simps) simp
    qed
  qed
qed

lemma release_loop_no_match:
  "\<forall>j. i \<le> j \<and> j < length es \<longrightarrow> gsi (es ! j) \<noteq> v \<Longrightarrow> release_loop v i es = es"
proof (induction v i es rule: release_loop.induct)
  case (1 virq i es)
  show ?case
  proof (cases "i < length es")
    case False
    then show ?thesis by (subst release_loop.simps) simp
  next
    case True
    then have n: "gsi (es ! i) \<noteq> virq" using "1.prems" by auto
    have "release_loop virq (i + 1) es = es"
      using "1.IH"(2) [OF True n] "1.prems" by auto
    then show ?thesis using True n by (subst release_loop.simps) simp
  qed
qed

lemma first_index_None_iff: "first_index P xs = None \<longleftrightarrow> (\<forall>x\<in>set xs. \<not> P x)"
  by (induction xs) auto

lemma first_index_Some_iff:
  "first_index P xs = Some i \<longleftrightarrow> i < length xs \<and> P (xs ! i) \<and> (\<forall>j<i. \<not> P (xs ! j))"
proof (induction xs arbitrary: i)
  case Nil
  then show ?case by simp
next
  case (Cons x xs)
  show ?case
  proof (cases "P x")
    case True
    then show ?thesis by (cases i) auto
  next
    case False
    show ?thesis
    proof (cases i)
      case 0
      then show ?thesis using False by auto
    next
      case (Suc k)
      have "(\<forall>j<Suc k. \<not> P ((x # xs) ! j)) \<longleftrightarrow> (\<forall>j<k. \<not> P (xs ! j))"
        using False by (auto simp: less_Suc_eq_0_disj)
      then show ?thesis using False Suc Cons.IH [of k] by auto
    qed
  qed
qed

lemma find_first_zero_bit_cases:
  "(find_first_zero_bit B n < n \<and> find_first_zero_bit B n \<notin> B
      \<and> (\<forall>j<find_first_zero_bit B n. j \<in> B))
   \<or> (find_first_zero_bit B n = n \<and> (\<forall>j<n. j \<in> B))"
proof (cases "first_index (\<lambda>i. i \<notin> B) [0..<n]")
  case None
  then have "\<forall>j<n. j \<in> B" by (auto simp: first_index_None_iff)
  then show ?thesis using None by (simp add: find_first_zero_bit_def)
next
  case (Some i)
  then have "i < n \<and> i \<notin> B \<and> (\<forall>j<i. j \<in> B)"
    by (auto simp: first_index_Some_iff)
  then show ?thesis using Some by (simp add: find_first_zero_bit_def)
qed

lemma release_loop_removes:
  assumes "\<forall>j<i. j < length es \<longrightarrow> gsi (es ! j) \<noteq> v"
      and "count (mset (map gsi es)) v \<le> 1"
  shows "v \<notin> gsi ` set (release_loop v i es)"
  using assms
proof (induction v i es rule: release_loop.induct)
  case (1 virq i es)
  show ?case
  proof (cases "i < length es")
    case False
    then have "release_loop virq i es = es" by (subst release_loop.simps) simp
    moreover have "virq \<notin> gsi ` set es"
    proof
      assume "virq \<in> gsi ` set es"
      then obtain k where k: "k < length es" "gsi (es ! k) = virq"
        by (auto simp: in_set_conv_nth)
      then have "k < i" using False by simp
      then show False using "1.prems"(1) k by blast
    qed
    ultimately show ?thesis by simp
  next
    case True
    show ?thesis
    proof (cases "gsi (es ! i) = virq")
      case m: True
      let ?es' = "(butlast es) [i := last es]"
      have mem: "es ! i \<in># mset es" using True by simp
      have "image_mset gsi (mset es - {# es ! i #}) = image_mset gsi (mset es) - {# gsi (es ! i) #}"
        using mem by (simp add: image_mset_Diff)
      then have "mset (map gsi ?es') = mset (map gsi es) - {# virq #}"
        using True m by (simp add: release_step_mset)
      then have "count (mset (map gsi ?es')) virq = count (mset (map gsi es)) virq - 1"
        by simp
      then have "count (mset (map gsi ?es')) virq = 0"
        using "1.prems"(2) by simp
      then have "virq \<notin># mset (map gsi ?es')"
        by (simp only: count_eq_zero_iff not_False_eq_True)
      then have nv: "virq \<notin> gsi ` set ?es'"
        by simp
      have "\<forall>j. i + 1 \<le> j \<and> j < length ?es' \<longrightarrow> gsi (?es' ! j) \<noteq> virq"
      proof (intro allI impI)
        fix j
        assume "i + 1 \<le> j \<and> j < length ?es'"
        then have "?es' ! j \<in> set ?es'" by (intro nth_mem) blast
        then show "gsi (?es' ! j) \<noteq> virq" using nv by blast
      qed
      then have "release_loop virq (i + 1) ?es' = ?es'"
        by (rule release_loop_no_match)
      then show ?thesis using True m nv by (subst release_loop.simps) simp
    next
      case n: False
      have "\<forall>j<i + 1. j < length es \<longrightarrow> gsi (es ! j) \<noteq> virq"
        using "1.prems"(1) n by (auto simp: less_Suc_eq)
      then show ?thesis
        using "1.IH"(2) [OF True n _ "1.prems"(2)] True n by (subst release_loop.simps) simp
    qed
  qed
qed

lemma distinct_iff_count_le_1: "distinct xs \<longleftrightarrow> (\<forall>a. count (mset xs) a \<le> 1)"
proof
  assume "distinct xs"
  then show "\<forall>a. count (mset xs) a \<le> 1"
    by (simp add: distinct_count_atmost_1)
next
  assume a: "\<forall>a. count (mset xs) a \<le> 1"
  show "distinct xs"
    unfolding distinct_count_atmost_1
  proof
    fix b
    show "count (mset xs) b = (if b \<in> set xs then 1 else 0)"
    proof (cases "b \<in> set xs")
      case True
      then have p: "0 < count (mset xs) b" by simp
      have q: "count (mset xs) b \<le> 1" using a by blast
      have "count (mset xs) b = 1" using p q by linarith
      then show ?thesis using True by (simp only: if_True)
    next
      case False
      then show ?thesis by (simp add: count_eq_zero_iff)
    qed
  qed
qed

lemma distinct_map_mset_subset:
  assumes "mset ys \<subseteq># mset xs" and "distinct (map f xs)"
  shows "distinct (map f ys)"
proof -
  have s: "image_mset f (mset ys) \<subseteq># image_mset f (mset xs)"
    using assms(1) by (rule image_mset_subseteq_mono)
  have "\<forall>a. count (mset (map f ys)) a \<le> 1"
  proof
    fix a
    have "count (image_mset f (mset ys)) a \<le> count (image_mset f (mset xs)) a"
      using s by (rule mset_subset_eq_count)
    also have "\<dots> \<le> 1"
      using assms(2) distinct_iff_count_le_1 [of "map f xs"] by simp
    finally show "count (mset (map f ys)) a \<le> 1" by simp
  qed
  then show ?thesis using distinct_iff_count_le_1 [of "map f ys"] by blast
qed

lemma release_loop_distinct:
  assumes "distinct (map gsi es)"
  shows "distinct (map gsi (release_loop v 0 es))"
    and "gsi ` set (release_loop v 0 es) = gsi ` set es - {v}"
proof -
  let ?r = "release_loop v 0 es"
  show "distinct (map gsi ?r)"
    using release_loop_mset_subset assms by (rule distinct_map_mset_subset)
  have c: "count (mset (map gsi es)) v \<le> 1"
    using assms distinct_iff_count_le_1 [of "map gsi es"] by blast
  have nv: "v \<notin> gsi ` set ?r"
    by (rule release_loop_removes) (use c in simp_all)
  have "set_mset (filter_mset (\<lambda>e. gsi e \<noteq> v) (mset ?r))
          = set_mset (filter_mset (\<lambda>e. gsi e \<noteq> v) (mset es))"
    by (simp only: release_loop_keep)
  then have k: "{e \<in> set ?r. gsi e \<noteq> v} = {e \<in> set es. gsi e \<noteq> v}"
    by simp
  show "gsi ` set ?r = gsi ` set es - {v}"
  proof
    show "gsi ` set ?r \<subseteq> gsi ` set es - {v}"
      using nv k by auto
    show "gsi ` set es - {v} \<subseteq> gsi ` set ?r"
      using k by auto
  qed
qed

subsection \<open>Release and flush\<close>

lemma release_virq_fields:
  "msi_hashtab (fst (aehd_irqchip_release_virq s v tr)) = msi_hashtab s"
  "gsi_count (fst (aehd_irqchip_release_virq s v tr)) = gsi_count s"
  "used_gsi_bitmap (fst (aehd_irqchip_release_virq s v tr)) = used_gsi_bitmap s - {v}"
  "irq_routes (fst (aehd_irqchip_release_virq s v tr)) = release_loop v 0 (irq_routes s)"
  "snd (aehd_irqchip_release_virq s v tr) = tr @ [Arch_release_virq_post v]"
  by (simp_all add: aehd_irqchip_release_virq_def clear_gsi_def Let_def)

lemma release_loop_inv:
  assumes "distinct (map gsi es)" and "gsi ` set es \<subseteq> B" and "gsi ` set es \<subseteq> {..<n}"
  shows "distinct (map gsi (release_loop v 0 es))"
    and "gsi ` set (release_loop v 0 es) \<subseteq> B - {v}"
    and "gsi ` set (release_loop v 0 es) \<subseteq> {..<n}"
proof -
  note r = release_loop_distinct [OF assms(1), of v]
  show "distinct (map gsi (release_loop v 0 es))" by (rule r(1))
  show "gsi ` set (release_loop v 0 es) \<subseteq> B - {v}"
    unfolding r(2) using assms(2) by (rule Diff_mono) simp
  have "gsi ` set es - {v} \<subseteq> gsi ` set es" by (rule Diff_subset)
  then show "gsi ` set (release_loop v 0 es) \<subseteq> {..<n}"
    unfolding r(2) using assms(3) by (rule subset_trans)
qed

lemma release_virq_inv:
  assumes "routing_inv s"
  shows "routing_inv (fst (aehd_irqchip_release_virq s v tr))"
proof -
  have a: "distinct (map gsi (irq_routes s))" "gsi ` set (irq_routes s) \<subseteq> used_gsi_bitmap s"
    "gsi ` set (irq_routes s) \<subseteq> {..<gsi_count s}"
    using assms by (simp_all add: routing_inv_def)
  show ?thesis
    unfolding routing_inv_def release_virq_fields
    by (intro conjI release_loop_inv [OF a])
qed

lemma fold_preserves:
  assumes "\<And>x st. Q st \<Longrightarrow> Q (f x st)" and "Q st"
  shows "Q (fold f xs st)"
  using assms(2) by (induction xs arbitrary: st) (simp_all add: assms(1))

lemma flush_route_fields:
  "gsi_count (fst (flush_route k r st)) = gsi_count (fst st)"
  "msi_hashtab (fst (flush_route k r st)) = (msi_hashtab (fst st)) (k := remove1 r (msi_hashtab (fst st) k))"
  "used_gsi_bitmap (fst (flush_route k r st)) = used_gsi_bitmap (fst st) - {gsi (kroute r)}"
  "irq_routes (fst (flush_route k r st)) = release_loop (gsi (kroute r)) 0 (irq_routes (fst st))"
  "snd (flush_route k r st) = snd st @ [Arch_release_virq_post (gsi (kroute r))]"
  by (simp_all add: flush_route_def aehd_irqchip_release_virq_def clear_gsi_def Let_def)

lemma flush_route_inv:
  assumes "routing_inv (fst st)"
  shows "routing_inv (fst (flush_route k r st))"
proof -
  have a: "distinct (map gsi (irq_routes (fst st)))"
    "gsi ` set (irq_routes (fst st)) \<subseteq> used_gsi_bitmap (fst st)"
    "gsi ` set (irq_routes (fst st)) \<subseteq> {..<gsi_count (fst st)}"
    using assms by (simp_all add: routing_inv_def)
  show ?thesis
    unfolding routing_inv_def flush_route_fields
    by (intro conjI release_loop_inv [OF a])
qed

lemma flush_preserves:
  assumes "\<And>k r st. Q st \<Longrightarrow> Q (flush_route k r st)" and "Q (s, tr)"
  shows "Q (aehd_flush_dynamic_msi_routes s tr)"
  unfolding aehd_flush_dynamic_msi_routes_def
proof (rule fold_preserves)
  show "Q (s, tr)" by (rule assms(2))
next
  fix k st
  assume "Q st"
  then show "Q (flush_bucket k st)"
    unfolding flush_bucket_def by (rule fold_preserves [rotated]) (rule assms(1))
qed

lemma flush_inv: "routing_inv s \<Longrightarrow> routing_inv (fst (aehd_flush_dynamic_msi_routes s tr))"
  by (rule flush_preserves [where Q = "\<lambda>st. routing_inv (fst st)"]) (simp_all add: flush_route_inv)

lemma flush_gsi_count: "gsi_count (fst (aehd_flush_dynamic_msi_routes s tr)) = gsi_count s"
  by (rule flush_preserves [where Q = "\<lambda>st. gsi_count (fst st) = gsi_count s"])
     (simp_all add: flush_route_fields)

lemma flush_trace:
  "\<exists>gs. snd (aehd_flush_dynamic_msi_routes s tr) = tr @ map Arch_release_virq_post gs"
proof (rule flush_preserves [where Q = "\<lambda>st. \<exists>gs. snd st = tr @ map Arch_release_virq_post gs"])
  fix k r and st :: "AEHDState \<times> event list"
  assume "\<exists>gs. snd st = tr @ map Arch_release_virq_post gs"
  then obtain gs where "snd st = tr @ map Arch_release_virq_post gs" ..
  then have "snd (flush_route k r st) = tr @ map Arch_release_virq_post (gs @ [gsi (kroute r)])"
    by (simp add: flush_route_fields)
  then show "\<exists>gs. snd (flush_route k r st) = tr @ map Arch_release_virq_post gs" ..
next
  have "snd (s, tr) = tr @ map Arch_release_virq_post []" by simp
  then show "\<exists>gs. snd (s, tr) = tr @ map Arch_release_virq_post gs" ..
qed

lemma flush_bucket_tab_aux:
  "msi_hashtab (fst st) k = rs \<Longrightarrow>
     msi_hashtab (fst (fold (flush_route k) rs st)) = (msi_hashtab (fst st)) (k := [])"
proof (induction rs arbitrary: st)
  case Nil
  then show ?case by auto
next
  case (Cons r rs)
  have "msi_hashtab (fst (flush_route k r st)) k = rs"
    using Cons.prems by (simp add: flush_route_fields)
  then have "msi_hashtab (fst (fold (flush_route k) rs (flush_route k r st)))
               = (msi_hashtab (fst (flush_route k r st))) (k := [])"
    by (rule Cons.IH)
  then show ?case by (simp add: flush_route_fields)
qed

lemma flush_bucket_tab:
  "msi_hashtab (fst (flush_bucket k st)) = (msi_hashtab (fst st)) (k := [])"
  unfolding flush_bucket_def by (rule flush_bucket_tab_aux) simp

lemma fold_flush_bucket_tab:
  "msi_hashtab (fst (fold flush_bucket ks st)) k =
     (if k \<in> set ks then [] else msi_hashtab (fst st) k)"
proof (induction ks arbitrary: st)
  case Nil
  then show ?case by simp
next
  case (Cons a ks)
  show ?case by (simp add: Cons.IH flush_bucket_tab)
qed

lemma flush_tab:
  "msi_hashtab (fst (aehd_flush_dynamic_msi_routes s tr)) k =
     (if k < AEHD_MSI_HASHTAB_SIZE then [] else msi_hashtab s k)"
  by (simp add: aehd_flush_dynamic_msi_routes_def fold_flush_bucket_tab)

lemma aehd_hash_msi_bound: "aehd_hash_msi d < AEHD_MSI_HASHTAB_SIZE"
proof -
  have "d AND 0xff \<le> 0xff" by (rule word_and_le1)
  then have "unat (d AND 0xff) \<le> unat (0xff :: 32 word)" by (simp only: word_le_nat_alt)
  then show ?thesis by (simp add: aehd_hash_msi_def AEHD_MSI_HASHTAB_SIZE_def)
qed

subsection \<open>Allocation of a GSI\<close>

lemma get_virq_unfold:
  "aehd_irqchip_get_virq s tr =
     (let st = (if length (irq_routes s) = gsi_count s
                then aehd_flush_dynamic_msi_routes s tr else (s, tr));
          n = find_first_zero_bit (used_gsi_bitmap (fst st)) (gsi_count (fst st))
      in (if n < gsi_count (fst st) then int n else - ENOSPC, fst st, snd st))"
  by (simp add: aehd_irqchip_get_virq_def Let_def split: prod.split)

lemma get_virq_gsi_count: "gsi_count (fst (snd (aehd_irqchip_get_virq s tr))) = gsi_count s"
  by (simp add: get_virq_unfold Let_def flush_gsi_count)

lemma get_virq_inv:
  "routing_inv s \<Longrightarrow> routing_inv (fst (snd (aehd_irqchip_get_virq s tr)))"
  by (simp add: get_virq_unfold Let_def flush_inv)

lemma get_virq_success:
  assumes "aehd_irqchip_get_virq s tr = (int g, s1, tr1)"
  shows "g < gsi_count s1" and "g \<notin> used_gsi_bitmap s1" and "\<forall>j<g. j \<in> used_gsi_bitmap s1"
    and "(s1, tr1) = (if length (irq_routes s) = gsi_count s
                      then aehd_flush_dynamic_msi_routes s tr else (s, tr))"
proof -
  let ?st = "if length (irq_routes s) = gsi_count s
             then aehd_flush_dynamic_msi_routes s tr else (s, tr)"
  let ?n = "find_first_zero_bit (used_gsi_bitmap (fst ?st)) (gsi_count (fst ?st))"
  have "fst (snd (aehd_irqchip_get_virq s tr)) = s1" "snd (snd (aehd_irqchip_get_virq s tr)) = tr1"
    using assms by simp_all
  then have st: "s1 = fst ?st" "tr1 = snd ?st"
    by (simp_all only: get_virq_unfold Let_def fst_conv snd_conv)
  then show "(s1, tr1) = ?st" by simp
  have "fst (aehd_irqchip_get_virq s tr) = int g"
    using assms by simp
  then have "(if ?n < gsi_count (fst ?st) then int ?n else - ENOSPC) = int g"
    by (simp only: get_virq_unfold Let_def fst_conv)
  then have n: "?n < gsi_count (fst ?st) \<and> g = ?n"
    by (cases "?n < gsi_count (fst ?st)") (simp_all add: ENOSPC_def)
  then show "g < gsi_count s1" using st by simp
  from find_first_zero_bit_cases [of "used_gsi_bitmap (fst ?st)" "gsi_count (fst ?st)"] n
  have "?n \<notin> used_gsi_bitmap (fst ?st) \<and> (\<forall>j<?n. j \<in> used_gsi_bitmap (fst ?st))"
    by auto
  then show "g \<notin> used_gsi_bitmap s1" and "\<forall>j<g. j \<in> used_gsi_bitmap s1"
    using n st by simp_all
qed

subsection \<open>The invariant of the routing table\<close>

lemma add_routing_entry_fields:
  "irq_routes (aehd_add_routing_entry s e) = irq_routes s @ [e]"
  "used_gsi_bitmap (aehd_add_routing_entry s e) = insert (gsi e) (used_gsi_bitmap s)"
  "gsi_count (aehd_add_routing_entry s e) = gsi_count s"
  "msi_hashtab (aehd_add_routing_entry s e) = msi_hashtab s"
  by (simp_all add: aehd_add_routing_entry_def set_gsi_def Let_def)

lemma add_routing_entry_inv:
  assumes "routing_inv s" and "gsi e \<notin> used_gsi_bitmap s" and "gsi e < gsi_count s"
  shows "routing_inv (aehd_add_routing_entry s e)"
proof -
  have "gsi e \<notin> gsi ` set (irq_routes s)"
    using assms(1,2) by (auto simp: routing_inv_def)
  then show ?thesis
    using assms(1,3) by (auto simp: routing_inv_def add_routing_entry_fields)
qed

lemma update_routing_entry_inv:
  assumes "routing_inv s"
  shows "routing_inv (snd (aehd_update_routing_entry s new_entry))"
proof (cases "first_index (\<lambda>e. gsi e = gsi new_entry) (irq_routes s)")
  case None
  then show ?thesis using assms by (simp add: aehd_update_routing_entry_def)
next
  case (Some n)
  then have n: "n < length (irq_routes s)" "gsi (irq_routes s ! n) = gsi new_entry"
    by (simp_all add: first_index_Some_iff)
  have "map gsi ((irq_routes s) [n := new_entry]) = (map gsi (irq_routes s)) [n := gsi new_entry]"
    by (rule map_update)
  also have "\<dots> = map gsi (irq_routes s)"
    using n by (metis list_update_id nth_map)
  finally have m: "map gsi ((irq_routes s) [n := new_entry]) = map gsi (irq_routes s)" .
  then have "set (map gsi ((irq_routes s) [n := new_entry])) = set (map gsi (irq_routes s))"
    by simp
  then have i: "gsi ` set ((irq_routes s) [n := new_entry]) = gsi ` set (irq_routes s)"
    by (simp only: set_map)
  have "routing_inv (s \<lparr> irq_routes := (irq_routes s) [n := new_entry] \<rparr>)"
    using assms unfolding routing_inv_def by (simp add: m i)
  then show ?thesis using Some assms by (simp add: aehd_update_routing_entry_def)
qed

lemma commit_routes_trace:
  "aehd_irqchip_commit_routes h s tr = Inr tr'
     \<Longrightarrow> tr' = tr @ [Ioctl Vm_fd (AEHD_SET_GSI_ROUTING (irq_routes s))]"
  by (auto simp: aehd_irqchip_commit_routes_def aehd_vm_ioctl_def device_io_control_def Let_def
        split: if_splits)

lemma send_msi_inv:
  assumes "routing_inv s" and "aehd_irqchip_send_msi h s msg tr = Inr (r, s', tr')"
  shows "routing_inv s'"
proof (cases "aehd_lookup_msi_route h s msg")
  case (Some route)
  then have "s' = s"
    using assms(2)
    by (auto simp: aehd_irqchip_send_msi_def Let_def split: if_splits sum.splits)
  then show ?thesis using assms(1) by simp
next
  case None
  obtain virq s1 tr1 where g: "aehd_irqchip_get_virq s tr = (virq, s1, tr1)"
    by (cases "aehd_irqchip_get_virq s tr") auto
  have i1: "routing_inv s1" using get_virq_inv [OF assms(1), of tr] g by simp
  show ?thesis
  proof (cases "virq < 0")
    case True
    then have "s' = s1"
      using assms(2) None g by (simp add: aehd_irqchip_send_msi_def Let_def)
    then show ?thesis using i1 by simp
  next
    case False
    then obtain k where k: "virq = int k" by (metis nat_0_le not_less)
    note ok = get_virq_success [OF g [unfolded k]]
    let ?s2 = "aehd_add_routing_entry s1 (msi_kroute h k msg)"
    have i2: "routing_inv ?s2"
      using i1 ok(1,2) by (intro add_routing_entry_inv) (simp_all add: msi_kroute_def)
    have "\<exists>f. s' = ?s2 \<lparr> msi_hashtab := f \<rparr>"
      using assms(2) None g False k
      by (auto simp: aehd_irqchip_send_msi_def Let_def split: if_splits sum.splits)
    then obtain f where "s' = ?s2 \<lparr> msi_hashtab := f \<rparr>" ..
    then show ?thesis using i2 by (simp add: routing_inv_def)
  qed
qed

lemma add_msi_route_inv:
  assumes "routing_inv s" and "aehd_irqchip_add_msi_route h s dev_msg tr = Inr (r, s', tr')"
  shows "routing_inv s'"
proof -
  obtain virq s1 tr1 where g: "aehd_irqchip_get_virq s tr = (virq, s1, tr1)"
    by (cases "aehd_irqchip_get_virq s tr") auto
  have i1: "routing_inv s1" using get_virq_inv [OF assms(1), of tr] g by simp
  show ?thesis
  proof (cases "virq < 0")
    case True
    then have "s' = s1"
      using assms(2) g by (simp add: aehd_irqchip_add_msi_route_def Let_def)
    then show ?thesis using i1 by simp
  next
    case False
    then obtain k where k: "virq = int k" by (metis nat_0_le not_less)
    note ok = get_virq_success [OF g [unfolded k]]
    have "\<exists>m. s' = aehd_add_routing_entry s1 (msi_kroute h k m)"
      using assms(2) g False k
      by (auto simp: aehd_irqchip_add_msi_route_def Let_def split: if_splits sum.splits)
    then obtain m where "s' = aehd_add_routing_entry s1 (msi_kroute h k m)" ..
    then show ?thesis
      using i1 ok(1,2) by (simp add: add_routing_entry_inv msi_kroute_def)
  qed
qed

lemma initial_state_inv: "routing_inv (initial_state cap)"
  by (simp add: initial_state_def aehd_init_irq_routing_def routing_inv_def Let_def)

lemma reachable_inv: "reachable h cap st \<Longrightarrow> routing_inv (fst st)"
proof (induction rule: reachable.induct)
  case init
  show ?case by (simp add: initial_state_inv)
next
  case (allocate_gsi s tr r s' tr')
  then show ?case using get_virq_inv [of s tr] by simp
next
  case (add_irqchip_route s tr irq chip pin s')
  then have "s' = aehd_add_routing_entry s (irqchip_kroute irq chip pin)"
    by (simp add: aehd_irqchip_add_irq_route_def split: if_splits)
  then show ?case
    using add_irqchip_route by (simp add: add_routing_entry_inv irqchip_kroute_def)
next
  case (add_msi_route s tr dev_msg r s' tr')
  then show ?case using add_msi_route_inv [of s h dev_msg tr r s' tr'] by simp
next
  case (update_route s tr virq msg r s')
  then show ?case
    using update_routing_entry_inv [of s "msi_kroute h virq msg"]
    by (simp add: aehd_irqchip_update_msi_route_def)
next
  case (release_route s tr virq s' tr')
  then show ?case using release_virq_inv [of s virq tr] by simp
next
  case (send_msi s tr msg r s' tr')
  then show ?case using send_msi_inv [of s h msg tr r s' tr'] by simp
next
  case (flush s tr s' tr')
  then show ?case using flush_inv [of s tr] by simp
next
  case (commit s tr tr')
  then show ?case by simp
qed

lemma distinct_map_filter_le_1:
  "distinct (map f xs) \<Longrightarrow> length (filter (\<lambda>x. f x = a) xs) \<le> 1"
proof (induction xs)
  case Nil
  then show ?case by simp
next
  case (Cons x xs)
  show ?case
  proof (cases "f x = a")
    case True
    then have "a \<notin> f ` set xs" using Cons.prems by auto
    then have "filter (\<lambda>x. f x = a) xs = []" by (auto simp: filter_empty_conv)
    then show ?thesis using True by simp
  next
    case False
    then show ?thesis using Cons by simp
  qed
qed

lemma routing_inv_count:
  assumes "routing_inv s"
  shows "length (irq_routes s) \<le> gsi_count s"
proof -
  have "distinct (map gsi (irq_routes s))"
    using assms by (simp add: routing_inv_def)
  then have "card (set (map gsi (irq_routes s))) = length (map gsi (irq_routes s))"
    by (rule distinct_card)
  then have "length (irq_routes s) = card (set (map gsi (irq_routes s)))"
    by simp
  also have "\<dots> \<le> card {..<gsi_count s}"
    using assms by (intro card_mono) (simp_all add: routing_inv_def)
  finally show ?thesis by simp
qed

text \<open>
  C4, amended.  In every state reached from the initial one through \<open>allocate_gsi\<close>,
  \<open>add_msi_route\<close>, \<open>update_route\<close>, \<open>release_route\<close>, \<open>send_msi\<close>, the flush, the
  commit, and \<open>add_irqchip_route\<close> applied to a GSI below the capacity that is not marked
  allocated, every GSI marked allocated has at most one routing entry and the number of
  entries does not exceed the GSI capacity.
\<close>

theorem reachable_routing_invariant:
  assumes "reachable h cap (s, tr)"
  shows "(\<forall>g \<in> used_gsi_bitmap s. length (filter (\<lambda>e. gsi e = g) (irq_routes s)) \<le> 1)
         \<and> length (irq_routes s) \<le> gsi_count s"
proof -
  have i: "routing_inv s" using reachable_inv [OF assms] by simp
  then have "distinct (map gsi (irq_routes s))" by (simp add: routing_inv_def)
  then have "\<forall>g. length (filter (\<lambda>e. gsi e = g) (irq_routes s)) \<le> 1"
    by (intro allI distinct_map_filter_le_1)
  then show ?thesis using routing_inv_count [OF i] by simp
qed

subsection \<open>What a flush does\<close>

lemma fold_flush_route:
  "irq_routes (fst (fold (flush_route k) rs st))
     = fold (\<lambda>r. release_loop (gsi (kroute r)) 0) rs (irq_routes (fst st))"
  "used_gsi_bitmap (fst (fold (flush_route k) rs st))
     = used_gsi_bitmap (fst st) - set (map (\<lambda>r. gsi (kroute r)) rs)"
  "snd (fold (flush_route k) rs st)
     = snd st @ map (\<lambda>r. Arch_release_virq_post (gsi (kroute r))) rs"
proof (induction rs arbitrary: st)
  case Nil
  { case 1 show ?case by simp }
  { case 2 show ?case by simp }
  { case 3 show ?case by simp }
next
  case (Cons r rs)
  { case 1 show ?case by (simp add: Cons.IH(1) flush_route_fields) }
  { case 2 show ?case by (auto simp: Cons.IH(2) flush_route_fields) }
  { case 3 show ?case by (simp add: Cons.IH(3) flush_route_fields) }
qed

lemma flush_bucket_effect:
  "irq_routes (fst (flush_bucket k st))
     = fold (\<lambda>r. release_loop (gsi (kroute r)) 0) (msi_hashtab (fst st) k) (irq_routes (fst st))"
  "used_gsi_bitmap (fst (flush_bucket k st))
     = used_gsi_bitmap (fst st) - set (map (\<lambda>r. gsi (kroute r)) (msi_hashtab (fst st) k))"
  "snd (flush_bucket k st)
     = snd st @ map (\<lambda>r. Arch_release_virq_post (gsi (kroute r))) (msi_hashtab (fst st) k)"
  by (simp_all add: flush_bucket_def fold_flush_route)

lemma fold_flush_bucket:
  assumes "distinct ks"
  shows "irq_routes (fst (fold flush_bucket ks st))
           = fold (\<lambda>r. release_loop (gsi (kroute r)) 0) (concat (map (msi_hashtab (fst st)) ks))
               (irq_routes (fst st))
         \<and> used_gsi_bitmap (fst (fold flush_bucket ks st))
           = used_gsi_bitmap (fst st)
             - set (map (\<lambda>r. gsi (kroute r)) (concat (map (msi_hashtab (fst st)) ks)))
         \<and> snd (fold flush_bucket ks st)
           = snd st @ map (\<lambda>r. Arch_release_virq_post (gsi (kroute r)))
                        (concat (map (msi_hashtab (fst st)) ks))"
  using assms
proof (induction ks arbitrary: st)
  case Nil
  show ?case by simp
next
  case (Cons a ks)
  let ?st = "flush_bucket a st"
  have d: "distinct ks" using Cons.prems by simp
  have m: "map (msi_hashtab (fst ?st)) ks = map (msi_hashtab (fst st)) ks"
    using Cons.prems by (intro map_cong) (auto simp: flush_bucket_tab)
  have f: "fold flush_bucket (a # ks) st = fold flush_bucket ks ?st" by simp
  note ih = Cons.IH [OF d, of ?st, unfolded m flush_bucket_effect]
  show ?case
    unfolding f using ih by (simp add: Un_commute Diff_eq Int_assoc Un_Diff set_diff_eq)
qed

lemma flush_effect:
  "irq_routes (fst (aehd_flush_dynamic_msi_routes s tr))
     = fold (\<lambda>r. release_loop (gsi (kroute r)) 0) (cached_routes s) (irq_routes s)"
  "used_gsi_bitmap (fst (aehd_flush_dynamic_msi_routes s tr))
     = used_gsi_bitmap s - set (map (\<lambda>r. gsi (kroute r)) (cached_routes s))"
  "snd (aehd_flush_dynamic_msi_routes s tr)
     = tr @ map (\<lambda>r. Arch_release_virq_post (gsi (kroute r))) (cached_routes s)"
  using fold_flush_bucket [of "[0..<AEHD_MSI_HASHTAB_SIZE]" "(s, tr)"]
  by (simp_all add: aehd_flush_dynamic_msi_routes_def cached_routes_def)

lemma concat_single_bucket:
  "k < n \<Longrightarrow> concat (map (empty_hashtab (k := rs)) [0..<n]) = rs"
proof (induction n)
  case 0
  then show ?case by simp
next
  case (Suc n)
  show ?case
  proof (cases "k = n")
    case True
    have "map (empty_hashtab (k := rs)) [0..<n] = map (\<lambda>_. []) [0..<n]"
      using True by (intro map_cong) (auto simp: empty_hashtab_def)
    then show ?thesis using True by simp
  next
    case False
    then have "k < n" using Suc.prems by simp
    then show ?thesis using Suc.IH False by (simp add: empty_hashtab_def)
  qed
qed

subsection \<open>A flush that leaves the entry of a flushed route behind\<close>

lemma example_hash: "aehd_hash_msi (data example_msg) = 65"
  by (simp add: aehd_hash_msi_def example_msg_def)

lemma gsi_examples [simp]:
  "gsi pic0 = 0" "gsi pic1 = 1" "gsi ioapic0 = 0" "gsi (example_msi_entry g) = g"
  by (simp_all add: pic0_def pic1_def ioapic0_def irqchip_kroute_def example_msi_entry_def msi_kroute_def)

lemma release_example_1: "release_loop 0 0 [pic0, pic1, ioapic0] = [ioapic0, pic1]"
  by (simp add: release_loop.simps)

lemma release_example_2: "release_loop 0 0 [ioapic0, pic1, example_msi_entry 0] = [example_msi_entry 0, pic1]"
  by (simp add: release_loop.simps)

lemma stale_cached: "cached_routes stale_state = [example_route]"
  by (simp add: cached_routes_def stale_state_def routing_state_def AEHD_MSI_HASHTAB_SIZE_def
        concat_single_bucket)

text \<open>
  C3.  \<open>aehd_irqchip_get_virq\<close> on \<open>stale_state\<close>: the table is at capacity, so the
  cache is flushed.  The release of GSI 0 overwrites the irqchip entry at index 0 with the
  last entry, which is the entry of the cached MSI route, and does not look at index 0
  again: the cache is emptied and bit 0 is cleared, but the entry of the flushed MSI route
  stays in the table, and GSI 0 is returned as free.
\<close>

theorem flush_leaves_cached_entry:
  "fst (aehd_irqchip_get_virq stale_state []) = 0
   \<and> irq_routes (fst (snd (aehd_irqchip_get_virq stale_state []))) = [example_msi_entry 0, pic1]
   \<and> used_gsi_bitmap (fst (snd (aehd_irqchip_get_virq stale_state []))) = {1}
   \<and> msi_hashtab (fst (snd (aehd_irqchip_get_virq stale_state []))) 65 = []
   \<and> snd (snd (aehd_irqchip_get_virq stale_state [])) = [Arch_release_virq_post 0]"
proof -
  have l: "length (irq_routes stale_state) = gsi_count stale_state"
    by (simp add: stale_state_def routing_state_def)
  have r: "irq_routes (fst (aehd_flush_dynamic_msi_routes stale_state [])) = [example_msi_entry 0, pic1]"
    by (simp add: flush_effect stale_cached example_route_def)
       (simp add: stale_state_def routing_state_def release_example_2)
  have b: "used_gsi_bitmap (fst (aehd_flush_dynamic_msi_routes stale_state [])) = {1}"
    by (simp add: flush_effect stale_cached example_route_def)
       (auto simp: stale_state_def routing_state_def)
  have t: "snd (aehd_flush_dynamic_msi_routes stale_state []) = [Arch_release_virq_post 0]"
    by (simp add: flush_effect stale_cached example_route_def)
  have c: "gsi_count (fst (aehd_flush_dynamic_msi_routes stale_state [])) = 3"
    by (simp add: flush_gsi_count) (simp add: stale_state_def routing_state_def)
  have h: "msi_hashtab (fst (aehd_flush_dynamic_msi_routes stale_state [])) 65 = []"
    by (simp add: flush_tab AEHD_MSI_HASHTAB_SIZE_def)
  have z: "find_first_zero_bit {Suc 0} 3 = 0"
    by (simp add: find_first_zero_bit_def upt_rec)
  show ?thesis
    by (simp add: get_virq_unfold l Let_def r b t c h z)
qed

text \<open>
  \<open>stale_state\<close> is reached from the initial state by operations of the table alone: two
  irqchip routes on GSI 0 and one on GSI 1, the release of GSI 0 (which itself leaves one
  of the two entries of GSI 0 behind), and an MSI that is then given GSI 0.
\<close>

lemma ffz_examples:
  "find_first_zero_bit {Suc 0} 3 = 0" "find_first_zero_bit {0} 2 = 1" "find_first_zero_bit {1} 3 = 0"
  by (simp_all add: find_first_zero_bit_def upt_rec)

lemma stale_state_history:
  "aehd_irqchip_add_irq_route (initial_state 4) 0 0 0
     = Inr (routing_state 3 {0} [pic0] 64 empty_hashtab)
   \<and> aehd_irqchip_add_irq_route (routing_state 3 {0} [pic0] 64 empty_hashtab) 1 0 1
     = Inr (routing_state 3 {0, 1} [pic0, pic1] 64 empty_hashtab)
   \<and> aehd_irqchip_add_irq_route (routing_state 3 {0, 1} [pic0, pic1] 64 empty_hashtab) 0 1 0
     = Inr (routing_state 3 {0, 1} [pic0, pic1, ioapic0] 64 empty_hashtab)
   \<and> aehd_irqchip_release_virq (routing_state 3 {0, 1} [pic0, pic1, ioapic0] 64 empty_hashtab) 0 []
     = (routing_state 3 {1} [ioapic0, pic1] 64 empty_hashtab, [Arch_release_virq_post 0])
   \<and> aehd_irqchip_send_msi accepting_host (routing_state 3 {1} [ioapic0, pic1] 64 empty_hashtab)
       example_msg [Arch_release_virq_post 0]
     = Inr (0, stale_state,
            [Arch_release_virq_post 0,
             Ioctl Vm_fd (AEHD_SET_GSI_ROUTING [ioapic0, pic1, example_msi_entry 0]),
             Ioctl Vm_fd (AEHD_IRQ_LINE_STATUS 0 1)])"
proof (intro conjI)
  show "aehd_irqchip_add_irq_route (initial_state 4) 0 0 0
     = Inr (routing_state 3 {0} [pic0] 64 empty_hashtab)"
    by (simp add: aehd_irqchip_add_irq_route_def initial_state_def aehd_init_irq_routing_def
          zeroed_state_def Let_def aehd_add_routing_entry_def set_gsi_def routing_state_def
          pic0_def irqchip_kroute_def empty_hashtab_def)
  show "aehd_irqchip_add_irq_route (routing_state 3 {0} [pic0] 64 empty_hashtab) 1 0 1
     = Inr (routing_state 3 {0, 1} [pic0, pic1] 64 empty_hashtab)"
    by (auto simp: aehd_irqchip_add_irq_route_def Let_def aehd_add_routing_entry_def set_gsi_def
          routing_state_def pic1_def irqchip_kroute_def)
  show "aehd_irqchip_add_irq_route (routing_state 3 {0, 1} [pic0, pic1] 64 empty_hashtab) 0 1 0
     = Inr (routing_state 3 {0, 1} [pic0, pic1, ioapic0] 64 empty_hashtab)"
    by (auto simp: aehd_irqchip_add_irq_route_def Let_def aehd_add_routing_entry_def set_gsi_def
          routing_state_def ioapic0_def irqchip_kroute_def)
  show "aehd_irqchip_release_virq (routing_state 3 {0, 1} [pic0, pic1, ioapic0] 64 empty_hashtab) 0 []
     = (routing_state 3 {1} [ioapic0, pic1] 64 empty_hashtab, [Arch_release_virq_post 0])"
    by (auto simp: aehd_irqchip_release_virq_def clear_gsi_def routing_state_def release_example_1)
  have g: "aehd_irqchip_get_virq (routing_state 3 {1} [ioapic0, pic1] 64 empty_hashtab)
             [Arch_release_virq_post 0]
           = (0, routing_state 3 {1} [ioapic0, pic1] 64 empty_hashtab, [Arch_release_virq_post 0])"
    by (simp add: get_virq_unfold Let_def routing_state_def ffz_examples)
  have l: "aehd_lookup_msi_route accepting_host (routing_state 3 {1} [ioapic0, pic1] 64 empty_hashtab)
             example_msg = None"
    by (simp add: aehd_lookup_msi_route_def routing_state_def empty_hashtab_def)
  show "aehd_irqchip_send_msi accepting_host (routing_state 3 {1} [ioapic0, pic1] 64 empty_hashtab)
       example_msg [Arch_release_virq_post 0]
     = Inr (0, stale_state,
            [Arch_release_virq_post 0,
             Ioctl Vm_fd (AEHD_SET_GSI_ROUTING [ioapic0, pic1, example_msi_entry 0]),
             Ioctl Vm_fd (AEHD_IRQ_LINE_STATUS 0 1)])"
    by (simp add: aehd_irqchip_send_msi_def l g Let_def example_hash del: One_nat_def)
       (auto simp: aehd_add_routing_entry_def set_gsi_def routing_state_def Let_def
          aehd_irqchip_commit_routes_def aehd_vm_ioctl_def device_io_control_def
          accepting_host_def ok_reply_def aehd_set_irq_def msi_kroute_def
          example_msi_entry_def stale_state_def example_route_def example_hash
          empty_hashtab_def)
qed

subsection \<open>Sending an MSI twice\<close>

lemma ucast_hi_roundtrip:
  fixes a :: "64 word"
  shows "(ucast (ucast (drop_bit 32 a) :: 32 word) :: 64 word) = drop_bit 32 a"
  by (rule bit_eqI) (auto simp: bit_simps dest: bit_imp_le_length)

lemma msi_kroute_matches:
  "msi_address_lo (u (msi_kroute h g msg)) = ucast (address msg)
   \<and> ucast (msi_address_hi (u (msi_kroute h g msg))) = drop_bit 32 (address msg)
   \<and> msi_data (u (msi_kroute h g msg)) = le32_to_cpu h (data msg)"
  by (simp add: msi_kroute_def ucast_hi_roundtrip)

lemma find_snoc: "find P xs = None \<Longrightarrow> P x \<Longrightarrow> find P (xs @ [x]) = Some x"
  by (induction xs) (auto split: if_splits)

lemma get_virq_bucket:
  assumes "aehd_irqchip_get_virq s tr = (r, s1, tr1)" and "k < AEHD_MSI_HASHTAB_SIZE"
  shows "msi_hashtab s1 k = msi_hashtab s k \<or> msi_hashtab s1 k = []"
proof -
  have "s1 = fst (snd (aehd_irqchip_get_virq s tr))" using assms(1) by simp
  then show ?thesis
    using assms(2) by (simp add: get_virq_unfold Let_def flush_tab)
qed

lemma get_virq_trace:
  assumes "aehd_irqchip_get_virq s tr = (r, s1, tr1)"
  shows "\<exists>gs. tr1 = tr @ map Arch_release_virq_post gs"
proof -
  have t: "tr1 = snd (snd (aehd_irqchip_get_virq s tr))" using assms by simp
  show ?thesis
  proof (cases "length (irq_routes s) = gsi_count s")
    case True
    then show ?thesis using flush_trace [of s tr] by (simp add: t get_virq_unfold Let_def)
  next
    case False
    have "tr = tr @ map Arch_release_virq_post []" by simp
    then show ?thesis using False by (simp add: t get_virq_unfold Let_def)
  qed
qed

text \<open>
  C2.  Let the message be absent from the cache, let the allocation of a GSI succeed with
  \<open>g\<close> (after the flush it may perform, which issues no request), and let the driver
  accept the requests on the VM handle.  Then the first \<open>send_msi\<close> marks \<open>g\<close> as the
  one new GSI, commits the routing table once and signals \<open>g\<close>; the second finds the
  message in the cache, changes nothing and issues the signal for \<open>g\<close> alone.
\<close>

theorem send_msi_twice:
  assumes "aehd_lookup_msi_route h s msg = None"
      and "aehd_irqchip_get_virq s tr = (int g, s1, tr1)"
      and "\<forall>t req. io_ok (DeviceIoControl h t Vm_fd req)"
  shows "(let kr = msi_kroute h g msg;
              hash = aehd_hash_msi (data msg);
              s2 = (aehd_add_routing_entry s1 kr)
                     \<lparr> msi_hashtab := (msi_hashtab s1) (hash := msi_hashtab s1 hash @ [\<lparr> kroute = kr \<rparr>]) \<rparr>;
              commit = Ioctl Vm_fd (AEHD_SET_GSI_ROUTING (irq_routes s1 @ [kr]));
              signal = Ioctl Vm_fd (AEHD_IRQ_LINE_STATUS g 1);
              tr2 = tr1 @ [commit, signal]
          in (\<exists>gs. tr1 = tr @ map Arch_release_virq_post gs)
           \<and> g \<notin> used_gsi_bitmap s1
           \<and> used_gsi_bitmap s2 = insert g (used_gsi_bitmap s1)
           \<and> aehd_irqchip_send_msi h s msg tr =
               Inr (io_status (DeviceIoControl h (tr1 @ [commit]) Vm_fd (AEHD_IRQ_LINE_STATUS g 1)),
                    s2, tr2)
           \<and> aehd_irqchip_send_msi h s2 msg tr2 =
               Inr (io_status (DeviceIoControl h tr2 Vm_fd (AEHD_IRQ_LINE_STATUS g 1)),
                    s2, tr2 @ [signal]))"
proof -
  let ?kr = "msi_kroute h g msg"
  let ?hash = "aehd_hash_msi (data msg)"
  let ?route = "\<lparr> kroute = ?kr \<rparr>"
  let ?s2 = "(aehd_add_routing_entry s1 ?kr)
               \<lparr> msi_hashtab := (msi_hashtab s1) (?hash := msi_hashtab s1 ?hash @ [?route]) \<rparr>"
  let ?commit = "Ioctl Vm_fd (AEHD_SET_GSI_ROUTING (irq_routes s1 @ [?kr]))"
  let ?signal = "Ioctl Vm_fd (AEHD_IRQ_LINE_STATUS g 1)"
  let ?tr2 = "tr1 @ [?commit, ?signal]"
  note ok = get_virq_success [OF assms(2)]
  have ty: "entry_type ?kr = AEHD_IRQ_ROUTING_MSI" and gk: "gsi ?kr = g"
    by (simp_all add: msi_kroute_def)
  have c: "aehd_irqchip_commit_routes h (aehd_add_routing_entry s1 ?kr) tr1 = Inr (tr1 @ [?commit])"
    using assms(3)
    by (simp add: aehd_irqchip_commit_routes_def aehd_vm_ioctl_def device_io_control_def Let_def
          add_routing_entry_fields)
  have sig: "aehd_set_irq h g 1 t =
               Inr (io_status (DeviceIoControl h t Vm_fd (AEHD_IRQ_LINE_STATUS g 1)), t @ [?signal])"
    for t
    using assms(3) by (simp add: aehd_set_irq_def aehd_vm_ioctl_def device_io_control_def Let_def)
  have first: "aehd_irqchip_send_msi h s msg tr =
      Inr (io_status (DeviceIoControl h (tr1 @ [?commit]) Vm_fd (AEHD_IRQ_LINE_STATUS g 1)), ?s2, ?tr2)"
    by (simp add: aehd_irqchip_send_msi_def assms(1,2) Let_def c ty gk sig add_routing_entry_fields)
  have "msi_hashtab s1 ?hash = msi_hashtab s ?hash \<or> msi_hashtab s1 ?hash = []"
    using assms(2) aehd_hash_msi_bound by (rule get_virq_bucket)
  then have miss: "find (\<lambda>route. msi_address_lo (u (kroute route)) = ucast (address msg)
                  \<and> ucast (msi_address_hi (u (kroute route))) = drop_bit 32 (address msg)
                  \<and> msi_data (u (kroute route)) = le32_to_cpu h (data msg))
               (msi_hashtab s1 ?hash) = None"
    using assms(1) by (auto simp: aehd_lookup_msi_route_def)
  have hit: "aehd_lookup_msi_route h ?s2 msg = Some ?route"
    unfolding aehd_lookup_msi_route_def
    using find_snoc [OF miss, of ?route] msi_kroute_matches [of h g msg]
    by simp
  have second: "aehd_irqchip_send_msi h ?s2 msg ?tr2 =
      Inr (io_status (DeviceIoControl h ?tr2 Vm_fd (AEHD_IRQ_LINE_STATUS g 1)), ?s2, ?tr2 @ [?signal])"
    by (simp add: aehd_irqchip_send_msi_def hit Let_def ty gk sig)
  have bm: "used_gsi_bitmap ?s2 = insert g (used_gsi_bitmap s1)"
    by (simp add: add_routing_entry_fields gk)
  show ?thesis
    unfolding Let_def
    using get_virq_trace [OF assms(2)] ok(2) bm first second by blast
qed

lemma two_irq_lookup: "aehd_lookup_msi_route accepting_host two_irq_state example_msg = None"
  by (simp add: aehd_lookup_msi_route_def two_irq_state_def routing_state_def empty_hashtab_def)

lemma two_irq_get_virq:
  "aehd_irqchip_get_virq two_irq_state [] = (int 2, two_irq_state, [])"
  by (simp add: get_virq_unfold Let_def two_irq_state_def routing_state_def
        find_first_zero_bit_def upt_rec)

lemma accepting_host_accepts: "\<forall>t req. io_ok (DeviceIoControl accepting_host t Vm_fd req)"
  by (simp add: accepting_host_def ok_reply_def)

theorem send_msi_twice_witness:
  "aehd_lookup_msi_route accepting_host two_irq_state example_msg = None
   \<and> aehd_irqchip_get_virq two_irq_state [] = (int 2, two_irq_state, [])
   \<and> (\<forall>t req. io_ok (DeviceIoControl accepting_host t Vm_fd req))
   \<and> aehd_irqchip_send_msi accepting_host two_irq_state example_msg [] =
        Inr (0, full_state,
             [Ioctl Vm_fd (AEHD_SET_GSI_ROUTING [ioapic0, pic1, example_msi_entry 2]),
              Ioctl Vm_fd (AEHD_IRQ_LINE_STATUS 2 1)])
   \<and> aehd_irqchip_send_msi accepting_host full_state example_msg
        [Ioctl Vm_fd (AEHD_SET_GSI_ROUTING [ioapic0, pic1, example_msi_entry 2]),
         Ioctl Vm_fd (AEHD_IRQ_LINE_STATUS 2 1)] =
        Inr (0, full_state,
             [Ioctl Vm_fd (AEHD_SET_GSI_ROUTING [ioapic0, pic1, example_msi_entry 2]),
              Ioctl Vm_fd (AEHD_IRQ_LINE_STATUS 2 1),
              Ioctl Vm_fd (AEHD_IRQ_LINE_STATUS 2 1)])"
proof -
  have s2: "(aehd_add_routing_entry two_irq_state (msi_kroute accepting_host 2 example_msg))
              \<lparr> msi_hashtab := (msi_hashtab two_irq_state)
                   (aehd_hash_msi (data example_msg) :=
                      msi_hashtab two_irq_state (aehd_hash_msi (data example_msg))
                        @ [\<lparr> kroute = msi_kroute accepting_host 2 example_msg \<rparr>]) \<rparr>
            = full_state"
    by (auto simp: aehd_add_routing_entry_def set_gsi_def Let_def two_irq_state_def
          routing_state_def full_state_def example_msi_entry_def msi_kroute_def
          example_hash empty_hashtab_def)
  have r: "irq_routes two_irq_state = [ioapic0, pic1]"
    by (simp add: two_irq_state_def routing_state_def)
  have st: "io_status (DeviceIoControl accepting_host t Vm_fd req) = 0" for t req
    by (simp add: accepting_host_def ok_reply_def)
  show ?thesis
    using send_msi_twice [OF two_irq_lookup two_irq_get_virq accepting_host_accepts]
      two_irq_lookup two_irq_get_virq accepting_host_accepts
    unfolding Let_def s2 r st
    by (simp add: example_msi_entry_def)
qed

text \<open>
  C4 as stated fails: with GSI capacity 1, two irqchip routes added for GSI 0 (as for the
  PIC and the IOAPIC, which share their GSIs) leave GSI 0 with two entries and the table
  with more entries than the capacity.
\<close>

theorem routing_invariant_counterexample:
  "aehd_irqchip_add_irq_route (initial_state 2) 0 0 0
     = Inr (routing_state 1 {0} [pic0] 64 empty_hashtab)
   \<and> aehd_irqchip_add_irq_route (routing_state 1 {0} [pic0] 64 empty_hashtab) 0 1 0
     = Inr (routing_state 1 {0} [pic0, ioapic0] 64 empty_hashtab)
   \<and> 0 \<in> used_gsi_bitmap (routing_state 1 {0} [pic0, ioapic0] 64 empty_hashtab)
   \<and> map gsi (irq_routes (routing_state 1 {0} [pic0, ioapic0] 64 empty_hashtab)) = [0, 0]
   \<and> length (irq_routes (routing_state 1 {0} [pic0, ioapic0] 64 empty_hashtab)) = 2
   \<and> gsi_count (routing_state 1 {0} [pic0, ioapic0] 64 empty_hashtab) = 1"
  by (simp add: aehd_irqchip_add_irq_route_def initial_state_def aehd_init_irq_routing_def
        zeroed_state_def Let_def aehd_add_routing_entry_def set_gsi_def routing_state_def
        pic0_def ioapic0_def irqchip_kroute_def empty_hashtab_def)

lemma two_irq_reachable: "reachable accepting_host 4 (two_irq_state, [])"
proof -
  have a: "reachable accepting_host 4 (initial_state 4, [])" by (rule reachable.init)
  have i: "initial_state 4 = routing_state 3 {} [] 0 empty_hashtab"
    by (simp add: initial_state_def aehd_init_irq_routing_def zeroed_state_def Let_def
          routing_state_def empty_hashtab_def)
  have "aehd_irqchip_add_irq_route (initial_state 4) 0 1 0
          = Inr (routing_state 3 {0} [ioapic0] 64 empty_hashtab)"
    by (simp add: i aehd_irqchip_add_irq_route_def Let_def aehd_add_routing_entry_def set_gsi_def
          routing_state_def ioapic0_def irqchip_kroute_def)
  then have b: "reachable accepting_host 4 (routing_state 3 {0} [ioapic0] 64 empty_hashtab, [])"
    by (rule reachable.add_irqchip_route [OF a, rotated 2]) (simp_all add: i routing_state_def)
  have "aehd_irqchip_add_irq_route (routing_state 3 {0} [ioapic0] 64 empty_hashtab) 1 0 1
          = Inr two_irq_state"
    by (auto simp: aehd_irqchip_add_irq_route_def Let_def aehd_add_routing_entry_def set_gsi_def
          routing_state_def pic1_def irqchip_kroute_def two_irq_state_def)
  then show ?thesis
    by (rule reachable.add_irqchip_route [OF b, rotated 2]) (simp_all add: routing_state_def)
qed

lemma send_msi_two_irq:
  "aehd_irqchip_send_msi accepting_host two_irq_state example_msg [] =
        Inr (0, full_state,
             [Ioctl Vm_fd (AEHD_SET_GSI_ROUTING [ioapic0, pic1, example_msi_entry 2]),
              Ioctl Vm_fd (AEHD_IRQ_LINE_STATUS 2 1)])"
  by (simp add: aehd_irqchip_send_msi_def two_irq_lookup two_irq_get_virq [simplified] Let_def
        example_hash del: One_nat_def)
     (auto simp: aehd_add_routing_entry_def set_gsi_def routing_state_def Let_def
        aehd_irqchip_commit_routes_def aehd_vm_ioctl_def device_io_control_def
        accepting_host_def ok_reply_def aehd_set_irq_def msi_kroute_def
        example_msi_entry_def full_state_def two_irq_state_def example_hash empty_hashtab_def)

theorem reachable_routing_invariant_witness:
  "reachable accepting_host 4
     (full_state, [Ioctl Vm_fd (AEHD_SET_GSI_ROUTING [ioapic0, pic1, example_msi_entry 2]),
                   Ioctl Vm_fd (AEHD_IRQ_LINE_STATUS 2 1)])
   \<and> 2 \<in> used_gsi_bitmap full_state
   \<and> length (filter (\<lambda>e. gsi e = 2) (irq_routes full_state)) \<le> 1
   \<and> length (irq_routes full_state) \<le> gsi_count full_state"
proof -
  have r: "reachable accepting_host 4
     (full_state, [Ioctl Vm_fd (AEHD_SET_GSI_ROUTING [ioapic0, pic1, example_msi_entry 2]),
                   Ioctl Vm_fd (AEHD_IRQ_LINE_STATUS 2 1)])"
    by (rule reachable.send_msi [OF two_irq_reachable send_msi_two_irq])
  have m: "2 \<in> used_gsi_bitmap full_state"
    by (simp add: full_state_def routing_state_def)
  from reachable_routing_invariant [OF r] m show ?thesis
    using r by blast
qed

subsection \<open>Lookup after region add and region del\<close>

lemma first_index_take_Some_iff:
  "first_index P (take n ys) = Some i
     \<longleftrightarrow> i < n \<and> i < length ys \<and> P (ys ! i) \<and> (\<forall>j<i. \<not> P (ys ! j))"
  by (auto simp: first_index_Some_iff)

lemma first_index_take_None_iff:
  "first_index P (take n ys) = None \<longleftrightarrow> (\<forall>k. k < n \<and> k < length ys \<longrightarrow> \<not> P (ys ! k))"
proof -
  have "(\<forall>x\<in>set (take n ys). \<not> P x) \<longleftrightarrow> (\<forall>k<length (take n ys). \<not> P (take n ys ! k))"
    by (simp add: all_set_conv_all_nth)
  also have "\<dots> \<longleftrightarrow> (\<forall>k. k < n \<and> k < length ys \<longrightarrow> \<not> P (ys ! k))"
    by auto
  finally show ?thesis by (simp add: first_index_None_iff)
qed

lemma set_user_memory_region_accepted:
  assumes "\<forall>t req. io_ok (DeviceIoControl h t Vm_fd req)"
  shows "fst (aehd_set_user_memory_region h gml sl tr) = 0"
  using assms
  by (simp add: aehd_set_user_memory_region_def aehd_vm_ioctl_def device_io_control_def Let_def
        split: prod.split)

lemma set_slot_fields:
  "nr_slots (set_slot s i sl) = nr_slots s"
  "slots (memory_listener (set_slot s i sl)) = (slots (memory_listener s)) [i := sl]"
  by (simp_all add: set_slot_def)

lemma the_slot_set_slot:
  "the_slot (set_slot s i v) j =
     (if j = i \<and> i < length (slots (memory_listener s)) then v else the_slot s j)"
proof (cases "i < length (slots (memory_listener s))")
  case True
  then show ?thesis by (simp add: the_slot_def set_slot_fields nth_list_update)
next
  case False
  then show ?thesis by (simp add: the_slot_def set_slot_fields list_update_beyond)
qed

lemma get_free_slot_Some:
  assumes "aehd_get_free_slot s (memory_listener s) = Some i"
  shows "i < nr_slots s" "i < length (slots (memory_listener s))"
        "memory_size (the_slot s i) = 0"
  using assms by (simp_all add: aehd_get_free_slot_def first_index_take_Some_iff the_slot_def)

lemma lookup_Some_iff:
  "aehd_lookup_matching_slot s (memory_listener s) start sz = Some i
     \<longleftrightarrow> i < nr_slots s \<and> i < length (slots (memory_listener s))
         \<and> start_addr (the_slot s i) = start \<and> memory_size (the_slot s i) = sz
         \<and> (\<forall>j<i. \<not> (start_addr (the_slot s j) = start \<and> memory_size (the_slot s j) = sz))"
  by (auto simp: aehd_lookup_matching_slot_def first_index_take_Some_iff the_slot_def)

lemma lookup_None_iff:
  "aehd_lookup_matching_slot s (memory_listener s) start sz = None
     \<longleftrightarrow> (\<forall>k. k < nr_slots s \<and> k < length (slots (memory_listener s))
               \<longrightarrow> \<not> (start_addr (the_slot s k) = start \<and> memory_size (the_slot s k) = sz))"
  by (auto simp: aehd_lookup_matching_slot_def first_index_take_None_iff the_slot_def)

text \<open>What a region add and a region del that return leave in the table.\<close>

lemma region_add_result:
  assumes al: "aehd_align_section h section = (sz, start)" and nz: "sz \<noteq> 0"
      and gs: "region_gets_slot (mr section)"
      and free: "aehd_get_free_slot s (memory_listener s) = Some i"
      and add: "aehd_region_add h s section tr = Inr (s', tr')"
  shows "s' = set_slot s i (added_slot s i section start sz)"
proof -
  have alloc: "aehd_alloc_slot s (memory_listener s) = Inr i"
    using free by (simp add: aehd_alloc_slot_def)
  have p1: "(\<not> is_ram (mr section) \<and> \<not> readonly (mr section) \<and> \<not> rom_device (mr section)) = False"
    and p2: "(\<not> is_ram (mr section) \<and> \<not> romd_mode (mr section)) = False"
    using gs by (auto simp: region_gets_slot_def)
  show ?thesis
    using add nz
    by (simp add: aehd_region_add_def aehd_set_phys_mem_def Let_def al alloc case_prod_beta
          added_slot_def p1 p2 split: if_splits del: de_Morgan_conj not_not)
qed

lemma region_add_accepted:
  assumes al: "aehd_align_section h section = (sz, start)" and nz: "sz \<noteq> 0"
      and gs: "region_gets_slot (mr section)"
      and free: "aehd_get_free_slot s (memory_listener s) = Some i"
      and acc: "\<forall>t req. io_ok (DeviceIoControl h t Vm_fd req)"
  shows "\<exists>tr'. aehd_region_add h s section tr =
                 Inr (set_slot s i (added_slot s i section start sz), tr')"
proof -
  have alloc: "aehd_alloc_slot s (memory_listener s) = Inr i"
    using free by (simp add: aehd_alloc_slot_def)
  have p1: "(\<not> is_ram (mr section) \<and> \<not> readonly (mr section) \<and> \<not> rom_device (mr section)) = False"
    and p2: "(\<not> is_ram (mr section) \<and> \<not> romd_mode (mr section)) = False"
    using gs by (auto simp: region_gets_slot_def)
  note ok = set_user_memory_region_accepted [OF acc]
  show ?thesis
    using nz
    by (simp add: aehd_region_add_def aehd_set_phys_mem_def Let_def al alloc case_prod_beta
          added_slot_def ok p1 p2 del: de_Morgan_conj not_not)
qed

lemma region_del_result:
  assumes al: "aehd_align_section h section = (sz, start)" and nz: "sz \<noteq> 0"
      and path: "is_ram (mr section) \<or> readonly (mr section) \<or> rom_device (mr section)"
      and del: "aehd_region_del h s section tr = Inr (s', tr')"
  shows "s' = (case aehd_lookup_matching_slot s (memory_listener s) start sz of
                 None \<Rightarrow> s
               | Some i \<Rightarrow> set_slot s i ((the_slot s i) \<lparr> memory_size := 0 \<rparr>))"
proof -
  have p1: "(\<not> is_ram (mr section) \<and> \<not> readonly (mr section) \<and> \<not> rom_device (mr section)) = False"
    using path by auto
  show ?thesis
    using del nz
    by (auto simp: aehd_region_del_def aehd_set_phys_mem_def Let_def al case_prod_beta p1
          split: if_splits option.splits sum.splits simp del: de_Morgan_conj not_not)
qed

lemma region_del_accepted:
  assumes acc: "\<forall>t req. io_ok (DeviceIoControl h t Vm_fd req)"
  shows "\<exists>s' tr'. aehd_region_del h s section tr = Inr (s', tr')"
proof -
  note ok = set_user_memory_region_accepted [OF acc]
  show ?thesis
    by (simp add: aehd_region_del_def aehd_set_phys_mem_def Let_def case_prod_beta ok
          split: option.split)
qed

text \<open>Every recorded region sits in the slot it is recorded with.\<close>

lemma registered_slots:
  assumes "registered h st reg"
  shows "\<forall>r i sl. reg r = Some (i, sl)
           \<longrightarrow> snd r \<noteq> 0 \<and> i < nr_slots (fst st) \<and> i < length (slots (memory_listener (fst st)))
               \<and> the_slot (fst st) i = sl \<and> start_addr sl = fst r \<and> memory_size sl = snd r"
  using assms
proof (induction rule: registered.induct)
  case (free_table s t0)
  show ?case by simp
next
  case (region_added s tr reg sect sz start i s' tr')
  note free = get_free_slot_Some [OF region_added.hyps(6)]
  have s': "s' = set_slot s i (added_slot s i sect start sz)"
    using region_added.hyps(2,3,4,6,7) by (rule region_add_result)
  show ?case
  proof (intro allI impI)
    fix r j sl
    assume a: "(reg ((start, sz) \<mapsto> (i, added_slot s i sect start sz))) r = Some (j, sl)"
    show "snd r \<noteq> 0 \<and> j < nr_slots (fst (s', tr'))
            \<and> j < length (slots (memory_listener (fst (s', tr'))))
            \<and> the_slot (fst (s', tr')) j = sl \<and> start_addr sl = fst r \<and> memory_size sl = snd r"
    proof (cases "r = (start, sz)")
      case True
      then have "j = i" "sl = added_slot s i sect start sz" using a by auto
      then show ?thesis
        using True free region_added.hyps(3)
        by (simp add: s' set_slot_fields the_slot_set_slot added_slot_def)
    next
      case False
      then have "reg r = Some (j, sl)" using a by simp
      from region_added.IH [rule_format, OF this]
      have old: "snd r \<noteq> 0" "j < nr_slots s" "j < length (slots (memory_listener s))"
          "the_slot s j = sl" "start_addr sl = fst r" "memory_size sl = snd r"
        by simp_all
      then have "j \<noteq> i" using free(3) by auto
      then show ?thesis
        using old by (simp add: s' set_slot_fields the_slot_set_slot)
    qed
  qed
next
  case (region_deleted s tr reg sect sz start s' tr')
  have s': "s' = (case aehd_lookup_matching_slot s (memory_listener s) start sz of
                    None \<Rightarrow> s
                  | Some i \<Rightarrow> set_slot s i ((the_slot s i) \<lparr> memory_size := 0 \<rparr>))"
    using region_deleted.hyps(2,3,4,5) by (rule region_del_result)
  show ?case
  proof (intro allI impI)
    fix r j sl
    assume a: "(reg ((start, sz) := None)) r = Some (j, sl)"
    then have ne: "r \<noteq> (start, sz)" by (auto split: if_splits)
    then have "reg r = Some (j, sl)" using a by simp
    from region_deleted.IH [rule_format, OF this]
    have old: "snd r \<noteq> 0" "j < nr_slots s" "j < length (slots (memory_listener s))"
        "the_slot s j = sl" "start_addr sl = fst r" "memory_size sl = snd r"
      by simp_all
    show "snd r \<noteq> 0 \<and> j < nr_slots (fst (s', tr'))
            \<and> j < length (slots (memory_listener (fst (s', tr'))))
            \<and> the_slot (fst (s', tr')) j = sl \<and> start_addr sl = fst r \<and> memory_size sl = snd r"
    proof (cases "aehd_lookup_matching_slot s (memory_listener s) start sz")
      case None
      then show ?thesis using old by (simp add: s')
    next
      case (Some i)
      then have "start_addr (the_slot s i) = start" "memory_size (the_slot s i) = sz"
        by (simp_all add: lookup_Some_iff)
      then have "j \<noteq> i" using old(4,5,6) ne by (cases r) auto
      then show ?thesis
        using old Some by (simp add: s' set_slot_fields the_slot_set_slot)
    qed
  qed
qed

text \<open>Every slot in use holds a recorded region.\<close>

lemma registered_live:
  assumes "registered h st reg"
  shows "\<forall>k. k < nr_slots (fst st) \<and> k < length (slots (memory_listener (fst st)))
               \<and> memory_size (the_slot (fst st) k) \<noteq> 0
           \<longrightarrow> reg (start_addr (the_slot (fst st) k), memory_size (the_slot (fst st) k))
                 = Some (k, the_slot (fst st) k)"
  using assms
proof (induction rule: registered.induct)
  case (free_table s t0)
  have "\<forall>k<length (take (nr_slots s) (slots (memory_listener s))).
          memory_size (take (nr_slots s) (slots (memory_listener s)) ! k) = 0"
    using free_table.hyps by (simp add: list_all_length)
  then have "\<forall>k. k < nr_slots s \<and> k < length (slots (memory_listener s))
               \<longrightarrow> memory_size (the_slot s k) = 0"
    by (auto simp: the_slot_def)
  then show ?case by auto
next
  case (region_added s tr reg sect sz start i s' tr')
  note free = get_free_slot_Some [OF region_added.hyps(6)]
  have s': "s' = set_slot s i (added_slot s i sect start sz)"
    using region_added.hyps(2,3,4,6,7) by (rule region_add_result)
  let ?new = "added_slot s i sect start sz"
  have new: "start_addr ?new = start" "memory_size ?new = sz"
    by (simp_all add: added_slot_def)
  show ?case
  proof (intro allI impI)
    fix k
    assume a: "k < nr_slots (fst (s', tr')) \<and> k < length (slots (memory_listener (fst (s', tr'))))
               \<and> memory_size (the_slot (fst (s', tr')) k) \<noteq> 0"
    show "(reg ((start, sz) \<mapsto> (i, ?new)))
            (start_addr (the_slot (fst (s', tr')) k), memory_size (the_slot (fst (s', tr')) k))
          = Some (k, the_slot (fst (s', tr')) k)"
    proof (cases "k = i")
      case True
      then show ?thesis using free new by (simp add: s' the_slot_set_slot)
    next
      case False
      then have same: "the_slot s' k = the_slot s k" by (simp add: s' the_slot_set_slot)
      have k: "k < nr_slots s" "k < length (slots (memory_listener s))"
          "memory_size (the_slot s k) \<noteq> 0"
        using a same by (simp_all add: s' set_slot_fields)
      then have old: "reg (start_addr (the_slot s k), memory_size (the_slot s k))
                        = Some (k, the_slot s k)"
        using region_added.IH by simp
      then have "(start_addr (the_slot s k), memory_size (the_slot s k)) \<noteq> (start, sz)"
        using region_added.hyps(5) by auto
      then show ?thesis using old same by auto
    qed
  qed
next
  case (region_deleted s tr reg sect sz start s' tr')
  have s': "s' = (case aehd_lookup_matching_slot s (memory_listener s) start sz of
                    None \<Rightarrow> s
                  | Some i \<Rightarrow> set_slot s i ((the_slot s i) \<lparr> memory_size := 0 \<rparr>))"
    using region_deleted.hyps(2,3,4,5) by (rule region_del_result)
  show ?case
  proof (intro allI impI)
    fix k
    assume a: "k < nr_slots (fst (s', tr')) \<and> k < length (slots (memory_listener (fst (s', tr'))))
               \<and> memory_size (the_slot (fst (s', tr')) k) \<noteq> 0"
    show "(reg ((start, sz) := None))
            (start_addr (the_slot (fst (s', tr')) k), memory_size (the_slot (fst (s', tr')) k))
          = Some (k, the_slot (fst (s', tr')) k)"
    proof (cases "aehd_lookup_matching_slot s (memory_listener s) start sz")
      case None
      then have s: "s' = s" by (simp add: s')
      have k: "k < nr_slots s" "k < length (slots (memory_listener s))"
          "memory_size (the_slot s k) \<noteq> 0"
        using a by (simp_all add: s)
      then have old: "reg (start_addr (the_slot s k), memory_size (the_slot s k))
                        = Some (k, the_slot s k)"
        using region_deleted.IH by simp
      have "(start_addr (the_slot s k), memory_size (the_slot s k)) \<noteq> (start, sz)"
        using None k(1,2) by (auto simp: lookup_None_iff)
      then show ?thesis using old by (simp add: s)
    next
      case (Some i)
      then have i: "i < nr_slots s" "i < length (slots (memory_listener s))"
          "start_addr (the_slot s i) = start" "memory_size (the_slot s i) = sz"
        by (simp_all add: lookup_Some_iff)
      have s: "s' = set_slot s i ((the_slot s i) \<lparr> memory_size := 0 \<rparr>)"
        using Some by (simp add: s')
      have ki: "k \<noteq> i"
        using a i(2) by (auto simp: s the_slot_set_slot)
      then have same: "the_slot s' k = the_slot s k" by (simp add: s the_slot_set_slot)
      have k: "k < nr_slots s" "k < length (slots (memory_listener s))"
          "memory_size (the_slot s k) \<noteq> 0"
        using a same by (simp_all add: s set_slot_fields)
      then have old: "reg (start_addr (the_slot s k), memory_size (the_slot s k))
                        = Some (k, the_slot s k)"
        using region_deleted.IH by simp
      have "reg (start, sz) = Some (i, the_slot s i)"
        using region_deleted.IH i region_deleted.hyps(3) by auto
      then have "(start_addr (the_slot s k), memory_size (the_slot s k)) \<noteq> (start, sz)"
        using old ki by auto
      then show ?thesis using old same by simp
    qed
  qed
qed

text \<open>The lookup of a range that is not empty finds what is recorded for it.\<close>

lemma registered_lookup:
  assumes r: "registered h (s, tr) reg" and nz: "sz \<noteq> 0"
  shows "aehd_lookup_matching_slot s (memory_listener s) start sz = map_option fst (reg (start, sz))"
proof (cases "reg (start, sz)")
  case None
  have "\<not> (start_addr (the_slot s k) = start \<and> memory_size (the_slot s k) = sz)"
    if "k < nr_slots s \<and> k < length (slots (memory_listener s))" for k
  proof
    assume m: "start_addr (the_slot s k) = start \<and> memory_size (the_slot s k) = sz"
    then have "reg (start, sz) = Some (k, the_slot s k)"
      using registered_live [OF r] that nz by auto
    then show False using None by simp
  qed
  then show ?thesis using None by (simp add: lookup_None_iff)
next
  case (Some p)
  obtain i sl where p: "p = (i, sl)" by (cases p)
  have "reg (start, sz) = Some (i, sl)" using Some p by simp
  from registered_slots [OF r, rule_format, OF this]
  have at: "i < nr_slots s" "i < length (slots (memory_listener s))" "the_slot s i = sl"
      "start_addr sl = start" "memory_size sl = sz"
    by simp_all
  have "\<not> (start_addr (the_slot s j) = start \<and> memory_size (the_slot s j) = sz)" if "j < i" for j
  proof
    assume m: "start_addr (the_slot s j) = start \<and> memory_size (the_slot s j) = sz"
    have "j < nr_slots s" "j < length (slots (memory_listener s))" using that at by simp_all
    then have "reg (start, sz) = Some (j, the_slot s j)"
      using registered_live [OF r] m nz by auto
    then show False using Some p that by simp
  qed
  then show ?thesis using Some p at by (simp add: lookup_Some_iff)
qed

text \<open>
  C7.  Take a table reached from a table of free slots by region adds and region dels that
  returned, each add for a section whose aligned range was not registered at that time, and
  let \<open>reg\<close> record, for the aligned range of every region added and not deleted since,
  the place and the slot its add created.  Then the lookup of a range that is not empty
  returns the place recorded for it, and nothing when none is recorded; every recorded
  region still sits unchanged in its place.  After one more \<open>aehd_region_add\<close> that
  returns, the lookup of the aligned range of the new section returns the slot that was
  free, now filled from the section, and every region recorded before is still found in
  its slot.  After one more \<open>aehd_region_del\<close> that returns, the lookup of the aligned
  range of the deleted section returns nothing, and every other recorded region is still
  found in its slot.  With a driver that accepts the requests, a region add into a free
  slot and a region del do return.
\<close>

theorem lookup_tracks_registered_regions:
  assumes r: "registered h (s, tr) reg"
  shows "(\<forall>start sz. sz \<noteq> 0
            \<longrightarrow> aehd_lookup_matching_slot s (memory_listener s) start sz
                  = map_option fst (reg (start, sz)))
       \<and> (\<forall>start sz i sl. reg (start, sz) = Some (i, sl)
            \<longrightarrow> sz \<noteq> 0 \<and> i < nr_slots s \<and> the_slot s i = sl
                \<and> start_addr sl = start \<and> memory_size sl = sz)
       \<and> (\<forall>section sz start i s' tr'.
             aehd_align_section h section = (sz, start) \<and> sz \<noteq> 0
             \<and> region_gets_slot (mr section) \<and> reg (start, sz) = None
             \<and> aehd_get_free_slot s (memory_listener s) = Some i
             \<and> aehd_region_add h s section tr = Inr (s', tr')
            \<longrightarrow> registered h (s', tr') (reg ((start, sz) \<mapsto> (i, added_slot s i section start sz)))
                \<and> aehd_lookup_matching_slot s' (memory_listener s') start sz = Some i
                \<and> the_slot s' i = added_slot s i section start sz
                \<and> (\<forall>start2 sz2 j sl. reg (start2, sz2) = Some (j, sl)
                      \<longrightarrow> aehd_lookup_matching_slot s' (memory_listener s') start2 sz2 = Some j
                          \<and> the_slot s' j = sl))
       \<and> (\<forall>section sz start s' tr'.
             aehd_align_section h section = (sz, start) \<and> sz \<noteq> 0
             \<and> (is_ram (mr section) \<or> readonly (mr section) \<or> rom_device (mr section))
             \<and> aehd_region_del h s section tr = Inr (s', tr')
            \<longrightarrow> registered h (s', tr') (reg ((start, sz) := None))
                \<and> aehd_lookup_matching_slot s' (memory_listener s') start sz = None
                \<and> (\<forall>start2 sz2 j sl. reg (start2, sz2) = Some (j, sl) \<and> (start2, sz2) \<noteq> (start, sz)
                      \<longrightarrow> aehd_lookup_matching_slot s' (memory_listener s') start2 sz2 = Some j
                          \<and> the_slot s' j = sl))
       \<and> (\<forall>section sz start i.
             aehd_align_section h section = (sz, start) \<and> sz \<noteq> 0
             \<and> region_gets_slot (mr section)
             \<and> aehd_get_free_slot s (memory_listener s) = Some i
             \<and> (\<forall>t req. io_ok (DeviceIoControl h t Vm_fd req))
            \<longrightarrow> (\<exists>tr'. aehd_region_add h s section tr
                          = Inr (set_slot s i (added_slot s i section start sz), tr')))
       \<and> (\<forall>section. (\<forall>t req. io_ok (DeviceIoControl h t Vm_fd req))
            \<longrightarrow> (\<exists>s' tr'. aehd_region_del h s section tr = Inr (s', tr')))"
proof -
  have found: "aehd_lookup_matching_slot s1 (memory_listener s1) start sz = Some i
               \<and> the_slot s1 i = sl"
    if "registered h (s1, tr1) reg1" and "reg1 (start, sz) = Some (i, sl)"
    for s1 tr1 reg1 start sz i sl
  proof -
    from registered_slots [OF that(1), rule_format, OF that(2)]
    have "sz \<noteq> 0" "the_slot s1 i = sl" by simp_all
    then show ?thesis
      using registered_lookup [OF that(1), of sz start] that(2) by simp
  qed
  have c1: "\<forall>start sz. sz \<noteq> 0
            \<longrightarrow> aehd_lookup_matching_slot s (memory_listener s) start sz
                  = map_option fst (reg (start, sz))"
    using registered_lookup [OF r] by simp
  have c2: "\<forall>start sz i sl. reg (start, sz) = Some (i, sl)
            \<longrightarrow> sz \<noteq> 0 \<and> i < nr_slots s \<and> the_slot s i = sl
                \<and> start_addr sl = start \<and> memory_size sl = sz"
  proof (intro allI impI)
    fix start sz i sl
    assume "reg (start, sz) = Some (i, sl)"
    from registered_slots [OF r, rule_format, OF this]
    show "sz \<noteq> 0 \<and> i < nr_slots s \<and> the_slot s i = sl
                \<and> start_addr sl = start \<and> memory_size sl = sz"
      by simp
  qed
  have c3: "\<forall>section sz start i s' tr'.
             aehd_align_section h section = (sz, start) \<and> sz \<noteq> 0
             \<and> region_gets_slot (mr section) \<and> reg (start, sz) = None
             \<and> aehd_get_free_slot s (memory_listener s) = Some i
             \<and> aehd_region_add h s section tr = Inr (s', tr')
            \<longrightarrow> registered h (s', tr') (reg ((start, sz) \<mapsto> (i, added_slot s i section start sz)))
                \<and> aehd_lookup_matching_slot s' (memory_listener s') start sz = Some i
                \<and> the_slot s' i = added_slot s i section start sz
                \<and> (\<forall>start2 sz2 j sl. reg (start2, sz2) = Some (j, sl)
                      \<longrightarrow> aehd_lookup_matching_slot s' (memory_listener s') start2 sz2 = Some j
                          \<and> the_slot s' j = sl)"
  proof (intro allI impI)
    fix sect sz start i s' tr'
    assume p: "aehd_align_section h sect = (sz, start) \<and> sz \<noteq> 0
             \<and> region_gets_slot (mr sect) \<and> reg (start, sz) = None
             \<and> aehd_get_free_slot s (memory_listener s) = Some i
             \<and> aehd_region_add h s sect tr = Inr (s', tr')"
    let ?reg = "reg ((start, sz) \<mapsto> (i, added_slot s i sect start sz))"
    have r': "registered h (s', tr') ?reg"
      using r p by (intro registered.region_added [of h s tr reg sect sz start i s' tr']) simp_all
    have new: "aehd_lookup_matching_slot s' (memory_listener s') start sz = Some i
               \<and> the_slot s' i = added_slot s i sect start sz"
      by (rule found [OF r']) simp
    have others: "\<forall>start2 sz2 j sl. reg (start2, sz2) = Some (j, sl)
                      \<longrightarrow> aehd_lookup_matching_slot s' (memory_listener s') start2 sz2 = Some j
                          \<and> the_slot s' j = sl"
    proof (intro allI impI)
      fix start2 sz2 j sl
      assume a: "reg (start2, sz2) = Some (j, sl)"
      then have "(start2, sz2) \<noteq> (start, sz)" using p by auto
      then have "?reg (start2, sz2) = Some (j, sl)" using a by auto
      then show "aehd_lookup_matching_slot s' (memory_listener s') start2 sz2 = Some j
                          \<and> the_slot s' j = sl"
        by (rule found [OF r'])
    qed
    show "registered h (s', tr') ?reg
                \<and> aehd_lookup_matching_slot s' (memory_listener s') start sz = Some i
                \<and> the_slot s' i = added_slot s i sect start sz
                \<and> (\<forall>start2 sz2 j sl. reg (start2, sz2) = Some (j, sl)
                      \<longrightarrow> aehd_lookup_matching_slot s' (memory_listener s') start2 sz2 = Some j
                          \<and> the_slot s' j = sl)"
      using r' new others by simp
  qed
  have c4: "\<forall>section sz start s' tr'.
             aehd_align_section h section = (sz, start) \<and> sz \<noteq> 0
             \<and> (is_ram (mr section) \<or> readonly (mr section) \<or> rom_device (mr section))
             \<and> aehd_region_del h s section tr = Inr (s', tr')
            \<longrightarrow> registered h (s', tr') (reg ((start, sz) := None))
                \<and> aehd_lookup_matching_slot s' (memory_listener s') start sz = None
                \<and> (\<forall>start2 sz2 j sl. reg (start2, sz2) = Some (j, sl) \<and> (start2, sz2) \<noteq> (start, sz)
                      \<longrightarrow> aehd_lookup_matching_slot s' (memory_listener s') start2 sz2 = Some j
                          \<and> the_slot s' j = sl)"
  proof (intro allI impI)
    fix sect sz start s' tr'
    assume p: "aehd_align_section h sect = (sz, start) \<and> sz \<noteq> 0
             \<and> (is_ram (mr sect) \<or> readonly (mr sect) \<or> rom_device (mr sect))
             \<and> aehd_region_del h s sect tr = Inr (s', tr')"
    let ?reg = "reg ((start, sz) := None)"
    have r': "registered h (s', tr') ?reg"
      using r p by (intro registered.region_deleted [of h s tr reg sect sz start s' tr']) simp_all
    have gone: "aehd_lookup_matching_slot s' (memory_listener s') start sz = None"
      using registered_lookup [OF r', of sz start] p by simp
    have others: "\<forall>start2 sz2 j sl. reg (start2, sz2) = Some (j, sl) \<and> (start2, sz2) \<noteq> (start, sz)
                      \<longrightarrow> aehd_lookup_matching_slot s' (memory_listener s') start2 sz2 = Some j
                          \<and> the_slot s' j = sl"
    proof (intro allI impI)
      fix start2 sz2 j sl
      assume a: "reg (start2, sz2) = Some (j, sl) \<and> (start2, sz2) \<noteq> (start, sz)"
      then have "?reg (start2, sz2) = Some (j, sl)" by auto
      then show "aehd_lookup_matching_slot s' (memory_listener s') start2 sz2 = Some j
                          \<and> the_slot s' j = sl"
        by (rule found [OF r'])
    qed
    show "registered h (s', tr') ?reg
                \<and> aehd_lookup_matching_slot s' (memory_listener s') start sz = None
                \<and> (\<forall>start2 sz2 j sl. reg (start2, sz2) = Some (j, sl) \<and> (start2, sz2) \<noteq> (start, sz)
                      \<longrightarrow> aehd_lookup_matching_slot s' (memory_listener s') start2 sz2 = Some j
                          \<and> the_slot s' j = sl)"
      using r' gone others by simp
  qed
  have c5: "\<forall>section sz start i.
             aehd_align_section h section = (sz, start) \<and> sz \<noteq> 0
             \<and> region_gets_slot (mr section)
             \<and> aehd_get_free_slot s (memory_listener s) = Some i
             \<and> (\<forall>t req. io_ok (DeviceIoControl h t Vm_fd req))
            \<longrightarrow> (\<exists>tr'. aehd_region_add h s section tr
                          = Inr (set_slot s i (added_slot s i section start sz), tr'))"
    by (intro allI impI region_add_accepted) simp_all
  have c6: "\<forall>section. (\<forall>t req. io_ok (DeviceIoControl h t Vm_fd req))
            \<longrightarrow> (\<exists>s' tr'. aehd_region_del h s section tr = Inr (s', tr'))"
    using region_del_accepted by blast
  show ?thesis
    using c1 c2 c3 c4 c5 c6 by (intro conjI)
qed

lemma example_align: "aehd_align_section accepting_host example_section = (0x2000, 0x2000)"
  by (simp add: aehd_align_section_def Let_def ROUND_UP_def qemu_real_host_page_mask_def
        accepting_host_def example_section_def)

lemma second_align: "aehd_align_section accepting_host second_section = (0x1000, 0x10000)"
  by (simp add: aehd_align_section_def Let_def ROUND_UP_def qemu_real_host_page_mask_def
        accepting_host_def second_section_def)

lemma two_slot_slots:
  "nr_slots two_slot_state = 2"
  "slots (memory_listener two_slot_state) =
     [\<lparr> start_addr = 0, memory_size = 0, ram = 0, slot = 0, flags = 0 \<rparr>,
      \<lparr> start_addr = 0, memory_size = 0, ram = 0, slot = 1, flags = 0 \<rparr>]"
  by (simp_all add: two_slot_state_def aehd_memory_listener_register_def zeroed_state_def upt_rec)

lemma example_gets_slot: "region_gets_slot (mr example_section)" "region_gets_slot (mr second_section)"
  by (simp_all add: region_gets_slot_def example_section_def second_section_def example_ram_def)

lemma first_added_slot:
  "added_slot two_slot_state 0 example_section 0x2000 0x2000 =
     \<lparr> start_addr = 0x2000, memory_size = 0x2000, ram = 0x7f0000000dcc, slot = 0, flags = 0 \<rparr>"
  by (simp add: added_slot_def the_slot_def two_slot_slots example_section_def example_ram_def
        aehd_mem_flags_def memory_region_is_romd_def)

theorem lookup_tracks_registered_regions_witness:
  "registered accepting_host (two_slot_state, []) Map.empty
   \<and> (\<exists>s1 tr1 s2 tr2 s3 tr3.
         aehd_region_add accepting_host two_slot_state example_section [] = Inr (s1, tr1)
       \<and> aehd_region_add accepting_host s1 second_section tr1 = Inr (s2, tr2)
       \<and> aehd_region_del accepting_host s2 example_section tr2 = Inr (s3, tr3)
       \<and> aehd_lookup_matching_slot s1 (memory_listener s1) 0x2000 0x2000 = Some 0
       \<and> aehd_lookup_matching_slot s1 (memory_listener s1) 0x10000 0x1000 = None
       \<and> aehd_lookup_matching_slot s2 (memory_listener s2) 0x2000 0x2000 = Some 0
       \<and> aehd_lookup_matching_slot s2 (memory_listener s2) 0x10000 0x1000 = Some 1
       \<and> the_slot s2 0 = \<lparr> start_addr = 0x2000, memory_size = 0x2000,
                              ram = 0x7f0000000dcc, slot = 0, flags = 0 \<rparr>
       \<and> the_slot s2 1 = \<lparr> start_addr = 0x10000, memory_size = 0x1000,
                              ram = 0x7f0000010000, slot = 1, flags = 0 \<rparr>
       \<and> aehd_lookup_matching_slot s3 (memory_listener s3) 0x2000 0x2000 = None
       \<and> aehd_lookup_matching_slot s3 (memory_listener s3) 0x10000 0x1000 = Some 1
       \<and> the_slot s3 1 = \<lparr> start_addr = 0x10000, memory_size = 0x1000,
                              ram = 0x7f0000010000, slot = 1, flags = 0 \<rparr>)"
proof -
  let ?h = accepting_host
  let ?sl0 = "\<lparr> start_addr = 0x2000, memory_size = 0x2000,
                 ram = 0x7f0000000dcc, slot = 0, flags = 0 :: 32 word \<rparr>"
  let ?sl1 = "\<lparr> start_addr = 0x10000, memory_size = 0x1000,
                 ram = 0x7f0000010000, slot = 1, flags = 0 :: 32 word \<rparr>"
  let ?reg1 = "Map.empty ((0x2000 :: 64 word, 0x2000 :: 64 word) \<mapsto> (0 :: nat, ?sl0))"
  let ?reg2 = "?reg1 ((0x10000, 0x1000) \<mapsto> (Suc 0, ?sl1))"
  let ?s1 = "set_slot two_slot_state 0 ?sl0"
  let ?s2 = "set_slot ?s1 (Suc 0) ?sl1"
  have r0: "registered ?h (two_slot_state, []) Map.empty"
    by (rule registered.free_table) (simp add: two_slot_slots)
  have free0: "aehd_get_free_slot two_slot_state (memory_listener two_slot_state) = Some 0"
    by (simp add: aehd_get_free_slot_def two_slot_slots)
  note t0 = lookup_tracks_registered_regions [OF r0]
  note add0 = t0 [THEN conjunct2, THEN conjunct2, THEN conjunct2, THEN conjunct2, THEN conjunct1,
                  rule_format, of example_section "0x2000" "0x2000" 0]
  have "\<exists>tr'. aehd_region_add ?h two_slot_state example_section [] = Inr (?s1, tr')"
    using add0 example_align example_gets_slot(1) free0 accepting_host_accepts
    by (simp add: first_added_slot)
  then obtain tr1 where a1: "aehd_region_add ?h two_slot_state example_section [] = Inr (?s1, tr1)" ..
  note after0 = t0 [THEN conjunct2, THEN conjunct2, THEN conjunct1,
                    rule_format, of example_section "0x2000" "0x2000" 0 ?s1 tr1]
  have f1: "registered ?h (?s1, tr1) ?reg1
            \<and> aehd_lookup_matching_slot ?s1 (memory_listener ?s1) 0x2000 0x2000 = Some 0"
    using after0 example_align example_gets_slot(1) free0 a1
    by (simp add: first_added_slot)
  then have r1: "registered ?h (?s1, tr1) ?reg1" ..
  note t1 = lookup_tracks_registered_regions [OF r1]
  have l1: "aehd_lookup_matching_slot ?s1 (memory_listener ?s1) 0x10000 0x1000 = None"
    using t1 [THEN conjunct1, rule_format, of "0x1000" "0x10000"] by simp
  have slots1: "nr_slots ?s1 = 2"
    "slots (memory_listener ?s1) =
       [?sl0, \<lparr> start_addr = 0, memory_size = 0, ram = 0, slot = 1, flags = 0 \<rparr>]"
    by (simp_all add: set_slot_fields two_slot_slots)
  have free1: "aehd_get_free_slot ?s1 (memory_listener ?s1) = Some (Suc 0)"
    by (simp add: aehd_get_free_slot_def slots1)
  have second_added: "added_slot ?s1 (Suc 0) second_section 0x10000 0x1000 = ?sl1"
    by (simp add: added_slot_def the_slot_def slots1 second_section_def example_ram_def
          aehd_mem_flags_def memory_region_is_romd_def)
  note add1 = t1 [THEN conjunct2, THEN conjunct2, THEN conjunct2, THEN conjunct2, THEN conjunct1,
                  rule_format, of second_section "0x1000" "0x10000" "Suc 0"]
  have "\<exists>tr'. aehd_region_add ?h ?s1 second_section tr1 = Inr (?s2, tr')"
    using add1 second_align example_gets_slot(2) free1 accepting_host_accepts
    by (simp add: second_added)
  then obtain tr2 where a2: "aehd_region_add ?h ?s1 second_section tr1 = Inr (?s2, tr2)" ..
  note after1 = t1 [THEN conjunct2, THEN conjunct2, THEN conjunct1,
                    rule_format, of second_section "0x1000" "0x10000" "Suc 0" ?s2 tr2]
  have r2: "registered ?h (?s2, tr2) ?reg2"
    using after1 second_align example_gets_slot(2) free1 a2
    by (simp add: second_added)
  note t2 = lookup_tracks_registered_regions [OF r2]
  have l2: "aehd_lookup_matching_slot ?s2 (memory_listener ?s2) 0x2000 0x2000 = Some 0"
    "aehd_lookup_matching_slot ?s2 (memory_listener ?s2) 0x10000 0x1000 = Some 1"
    using t2 [THEN conjunct1, rule_format, of "0x2000" "0x2000"]
          t2 [THEN conjunct1, rule_format, of "0x1000" "0x10000"]
    by simp_all
  have sl2: "the_slot ?s2 0 = ?sl0" "the_slot ?s2 1 = ?sl1"
    using t2 [THEN conjunct2, THEN conjunct1, rule_format, of "0x2000" "0x2000" 0 ?sl0]
          t2 [THEN conjunct2, THEN conjunct1, rule_format, of "0x10000" "0x1000" "Suc 0" ?sl1]
    by simp_all
  obtain s3 tr3 where d: "aehd_region_del ?h ?s2 example_section tr2 = Inr (s3, tr3)"
    using t2 [THEN conjunct2, THEN conjunct2, THEN conjunct2, THEN conjunct2, THEN conjunct2,
              rule_format, OF accepting_host_accepts [rule_format], of example_section]
    by blast
  note after2 = t2 [THEN conjunct2, THEN conjunct2, THEN conjunct2, THEN conjunct1,
                    rule_format, of example_section "0x2000" "0x2000" s3 tr3]
  have ram: "is_ram (mr example_section)"
    by (simp add: example_section_def example_ram_def)
  have g: "aehd_lookup_matching_slot s3 (memory_listener s3) 0x2000 0x2000 = None
           \<and> (\<forall>start2 sz2 j sl. ?reg2 (start2, sz2) = Some (j, sl) \<and> (start2, sz2) \<noteq> (0x2000, 0x2000)
                 \<longrightarrow> aehd_lookup_matching_slot s3 (memory_listener s3) start2 sz2 = Some j
                     \<and> the_slot s3 j = sl)"
    using after2 example_align ram d by simp
  have l3: "aehd_lookup_matching_slot s3 (memory_listener s3) 0x10000 0x1000 = Some 1
            \<and> the_slot s3 1 = ?sl1"
    using g [THEN conjunct2, rule_format, of "0x10000" "0x1000" "Suc 0" ?sl1] by simp
  show ?thesis
    using r0 a1 a2 d f1 l1 l2 sl2 g l3 by blast
qed

subsection \<open>A pass through the body of the execution loop\<close>

lemma exec_body_accepted:
  assumes "run_accepted h st"
  shows "aehd_cpu_exec_body h a st =
           aehd_cpu_exec_dispatch a (run_exit a st)
             (fst (aehd_cpu_exec_prerun st),
              snd (aehd_cpu_exec_prerun st) @ [Ioctl Vcpu_fd AEHD_RUN, Arch_post_run])"
  using assms
  by (simp add: aehd_cpu_exec_body_def run_accepted_def run_exit_def aehd_vcpu_ioctl_def
        device_io_control_def Let_def case_prod_beta)

lemma errno_of_last_error_negative: "errno_of_last_error e < 0"
  by (cases e) (simp_all add: errno_of_last_error_def E2BIG_def EAGAIN_def EFAULT_def)

lemma errno_of_last_error_cases:
  "errno_of_last_error e = - EAGAIN \<longleftrightarrow> e = ERROR_RETRY"
  "errno_of_last_error e \<noteq> - EINTR"
  by (cases e; simp add: errno_of_last_error_def E2BIG_def EAGAIN_def EFAULT_def EINTR_def)+

lemma exec_body_refused:
  assumes "\<not> run_accepted h st"
  shows "aehd_cpu_exec_body h a st =
           (if io_last_error (DeviceIoControl h (snd (aehd_cpu_exec_prerun st)) Vcpu_fd AEHD_RUN)
                 = ERROR_RETRY
            then EXCP_INTERRUPT else - 1,
            fst (aehd_cpu_exec_prerun st),
            snd (aehd_cpu_exec_prerun st) @ [Ioctl Vcpu_fd AEHD_RUN, Arch_post_run])"
  using assms
  by (simp add: aehd_cpu_exec_body_def run_accepted_def aehd_vcpu_ioctl_def
        device_io_control_def Let_def errno_of_last_error_negative errno_of_last_error_cases
        case_prod_beta)

subsection \<open>The execution loop\<close>

lemma exec_state_after_simps:
  "exec_state_after h a 0 st = st"
  "exec_state_after h a (Suc n) st = exec_state_after h a n (snd (aehd_cpu_exec_body h a st))"
  by (simp_all add: exec_state_after_def funpow_Suc_right del: funpow.simps)

lemma exec_loop_returns:
  assumes "\<forall>i<n. fst (aehd_cpu_exec_body h a (exec_state_after h a i st)) = 0"
      and "fst (aehd_cpu_exec_body h a (exec_state_after h a n st)) \<noteq> 0"
  shows "aehd_cpu_exec_loop h a st = Some (aehd_cpu_exec_body h a (exec_state_after h a n st))"
  using assms
proof (induction n arbitrary: st)
  case 0
  then show ?case
    by (subst aehd_cpu_exec_loop.simps) (auto simp: exec_state_after_simps split: prod.split)
next
  case (Suc n)
  let ?st = "snd (aehd_cpu_exec_body h a st)"
  have z: "fst (aehd_cpu_exec_body h a st) = 0"
    using Suc.prems(1) [rule_format, of 0] by (simp add: exec_state_after_simps)
  have "\<forall>i<n. fst (aehd_cpu_exec_body h a (exec_state_after h a i ?st)) = 0"
    using Suc.prems(1) by (auto simp: exec_state_after_simps(2) [symmetric])
  moreover have "fst (aehd_cpu_exec_body h a (exec_state_after h a n ?st)) \<noteq> 0"
    using Suc.prems(2) by (simp add: exec_state_after_simps)
  ultimately have "aehd_cpu_exec_loop h a ?st
                     = Some (aehd_cpu_exec_body h a (exec_state_after h a n ?st))"
    by (rule Suc.IH)
  moreover have "aehd_cpu_exec_loop h a st = aehd_cpu_exec_loop h a ?st"
    using z by (subst aehd_cpu_exec_loop.simps) (auto split: prod.split)
  ultimately show ?case by (simp add: exec_state_after_simps)
qed

lemma exec_loop_Some:
  assumes "aehd_cpu_exec_loop h a st = Some y"
  shows "\<exists>n. (\<forall>i<n. fst (aehd_cpu_exec_body h a (exec_state_after h a i st)) = 0)
            \<and> fst (aehd_cpu_exec_body h a (exec_state_after h a n st)) \<noteq> 0
            \<and> y = aehd_cpu_exec_body h a (exec_state_after h a n st)"
  using assms
proof (induction rule: aehd_cpu_exec_loop.raw_induct [rotated 1, consumes 1, case_names step])
  case (step loop h a st y)
  obtain ret cpu1 tr1 where b: "aehd_cpu_exec_body h a st = (ret, cpu1, tr1)"
    by (cases "aehd_cpu_exec_body h a st") auto
  show ?case
  proof (cases "ret = 0")
    case True
    then have "loop h a (cpu1, tr1) = Some y" using step.hyps b by simp
    then obtain n where n:
      "\<forall>i<n. fst (aehd_cpu_exec_body h a (exec_state_after h a i (cpu1, tr1))) = 0"
      "fst (aehd_cpu_exec_body h a (exec_state_after h a n (cpu1, tr1))) \<noteq> 0"
      "y = aehd_cpu_exec_body h a (exec_state_after h a n (cpu1, tr1))"
      using step.IH by blast
    have "\<forall>i<Suc n. fst (aehd_cpu_exec_body h a (exec_state_after h a i st)) = 0"
    proof (intro allI impI)
      fix i assume "i < Suc n"
      then show "fst (aehd_cpu_exec_body h a (exec_state_after h a i st)) = 0"
        using n(1) b True by (cases i) (simp_all add: exec_state_after_simps)
    qed
    moreover have "fst (aehd_cpu_exec_body h a (exec_state_after h a (Suc n) st)) \<noteq> 0"
      "y = aehd_cpu_exec_body h a (exec_state_after h a (Suc n) st)"
      using n(2,3) b by (simp_all add: exec_state_after_simps)
    ultimately show ?thesis by blast
  next
    case False
    then have "y = aehd_cpu_exec_body h a st" using step.hyps b by simp
    then have "(\<forall>i<0. fst (aehd_cpu_exec_body h a (exec_state_after h a i st)) = 0)
            \<and> fst (aehd_cpu_exec_body h a (exec_state_after h a 0 st)) \<noteq> 0
            \<and> y = aehd_cpu_exec_body h a (exec_state_after h a 0 st)"
      using False b by (simp add: exec_state_after_simps)
    then show ?thesis by blast
  qed
qed

lemma exec_loop_diverges:
  assumes "\<forall>i. fst (aehd_cpu_exec_body h a (exec_state_after h a i st)) = 0"
  shows "aehd_cpu_exec_loop h a st = None"
proof (cases "aehd_cpu_exec_loop h a st")
  case None
  then show ?thesis .
next
  case (Some y)
  then obtain n where "fst (aehd_cpu_exec_body h a (exec_state_after h a n st)) \<noteq> 0"
    using exec_loop_Some by blast
  then show ?thesis using assms by blast
qed

lemma exec_loop_again:
  "fst (aehd_cpu_exec_body h a st) = 0
     \<Longrightarrow> aehd_cpu_exec_loop h a st = aehd_cpu_exec_loop h a (snd (aehd_cpu_exec_body h a st))"
  by (subst aehd_cpu_exec_loop.simps) (auto split: prod.split)

lemma exec_loop_ends:
  "fst (aehd_cpu_exec_body h a st) \<noteq> 0
     \<Longrightarrow> aehd_cpu_exec_loop h a st = Some (aehd_cpu_exec_body h a st)"
  by (subst aehd_cpu_exec_loop.simps) (auto split: prod.split)

lemma dispatch_zero:
  fixes run :: aehd_run and st :: "CPUState \<times> event list"
  assumes "exit_reason run = AEHD_EXIT_IO \<or> exit_reason run = AEHD_EXIT_MMIO
            \<or> (exit_reason run = AEHD_EXIT_SYSTEM_EVENT
                \<and> system_event_type run = AEHD_SYSTEM_EVENT_CRASH)"
  shows "fst (aehd_cpu_exec_dispatch a run st) = 0"
  using assms by (auto simp: aehd_cpu_exec_dispatch_def split: prod.split)

lemma dispatch_interrupt:
  fixes run :: aehd_run and st :: "CPUState \<times> event list"
  assumes "exit_reason run = AEHD_EXIT_IRQ_WINDOW_OPEN \<or> exit_reason run = AEHD_EXIT_INTR
            \<or> exit_reason run = AEHD_EXIT_SHUTDOWN
            \<or> (exit_reason run = AEHD_EXIT_SYSTEM_EVENT
                \<and> (system_event_type run = AEHD_SYSTEM_EVENT_SHUTDOWN
                    \<or> system_event_type run = AEHD_SYSTEM_EVENT_RESET))"
  shows "fst (aehd_cpu_exec_dispatch a run st) = EXCP_INTERRUPT"
  using assms by (auto simp: aehd_cpu_exec_dispatch_def split: prod.split)

text \<open>
  C5.  When no asynchronous event stops \<open>aehd_cpu_exec\<close> at its entry: if the first
  \<open>n\<close> passes through the loop body give 0 and the next one gives a nonzero result, the
  function returns that result after exactly these passes, and a negative result is
  preceded by the dump of the CPU state and the stop of the virtual machine; if every pass
  gives 0 the function never returns.  A pass that gives 0 is followed by another pass, a
  pass that gives anything else ends the loop.  A pass whose run request the driver accepts
  gives the result and the effects of the switch on the exit reason that the run structure
  holds after the request: on an IO or MMIO exit or the Crash system event the pass gives 0
  and the loop goes on from the state the pass leaves; on IrqWindowOpen, Intr, Shutdown and
  the Shutdown and Reset system events the pass gives \<open>EXCP_INTERRUPT\<close>, which is not 0,
  and the loop ends with the result of the pass.  A pass whose run request the driver
  refuses ends the loop, with \<open>EXCP_INTERRUPT\<close> when the driver asks for a retry and with
  -1 otherwise.  The switch itself gives 0 for the first group of exits and
  \<open>EXCP_INTERRUPT\<close> for the second.
\<close>

theorem aehd_cpu_exec_loop_exit:
  assumes "\<not> aehd_arch_process_async_events a tr"
  shows "(\<forall>n. (\<forall>i<n. fst (aehd_cpu_exec_body h a (exec_state_after h a i (cpu, tr))) = 0)
              \<and> fst (aehd_cpu_exec_body h a (exec_state_after h a n (cpu, tr))) \<noteq> 0
            \<longrightarrow> aehd_cpu_exec h a cpu tr =
                  (case aehd_cpu_exec_body h a (exec_state_after h a n (cpu, tr)) of
                     (ret, cpu1, tr1) \<Rightarrow>
                       Some (ret, cpu1 \<lparr> exit_request := False \<rparr>,
                             tr1 @ (if ret < 0 then [Cpu_dump_state, Vm_stop] else []))))
       \<and> ((\<forall>i. fst (aehd_cpu_exec_body h a (exec_state_after h a i (cpu, tr))) = 0)
            \<longrightarrow> aehd_cpu_exec h a cpu tr = None)
       \<and> (\<forall>st. fst (aehd_cpu_exec_body h a st) = 0
            \<longrightarrow> aehd_cpu_exec_loop h a st = aehd_cpu_exec_loop h a (snd (aehd_cpu_exec_body h a st)))
       \<and> (\<forall>st. fst (aehd_cpu_exec_body h a st) \<noteq> 0
            \<longrightarrow> aehd_cpu_exec_loop h a st = Some (aehd_cpu_exec_body h a st))
       \<and> (\<forall>run st. exit_reason run = AEHD_EXIT_IO \<or> exit_reason run = AEHD_EXIT_MMIO
                    \<or> (exit_reason run = AEHD_EXIT_SYSTEM_EVENT
                        \<and> system_event_type run = AEHD_SYSTEM_EVENT_CRASH)
            \<longrightarrow> fst (aehd_cpu_exec_dispatch a run st) = 0)
       \<and> (\<forall>run st. exit_reason run = AEHD_EXIT_IRQ_WINDOW_OPEN \<or> exit_reason run = AEHD_EXIT_INTR
                    \<or> exit_reason run = AEHD_EXIT_SHUTDOWN
                    \<or> (exit_reason run = AEHD_EXIT_SYSTEM_EVENT
                        \<and> (system_event_type run = AEHD_SYSTEM_EVENT_SHUTDOWN
                            \<or> system_event_type run = AEHD_SYSTEM_EVENT_RESET))
            \<longrightarrow> fst (aehd_cpu_exec_dispatch a run st) = EXCP_INTERRUPT)
       \<and> EXCP_INTERRUPT \<noteq> 0
       \<and> (\<forall>st. run_accepted h st
            \<longrightarrow> aehd_cpu_exec_body h a st =
                  aehd_cpu_exec_dispatch a (run_exit a st)
                    (fst (aehd_cpu_exec_prerun st),
                     snd (aehd_cpu_exec_prerun st) @ [Ioctl Vcpu_fd AEHD_RUN, Arch_post_run]))
       \<and> (\<forall>st. run_accepted h st
                \<and> (exit_reason (run_exit a st) = AEHD_EXIT_IO
                    \<or> exit_reason (run_exit a st) = AEHD_EXIT_MMIO
                    \<or> (exit_reason (run_exit a st) = AEHD_EXIT_SYSTEM_EVENT
                        \<and> system_event_type (run_exit a st) = AEHD_SYSTEM_EVENT_CRASH))
            \<longrightarrow> fst (aehd_cpu_exec_body h a st) = 0
                \<and> aehd_cpu_exec_loop h a st =
                    aehd_cpu_exec_loop h a (snd (aehd_cpu_exec_body h a st)))
       \<and> (\<forall>st. run_accepted h st
                \<and> (exit_reason (run_exit a st) = AEHD_EXIT_IRQ_WINDOW_OPEN
                    \<or> exit_reason (run_exit a st) = AEHD_EXIT_INTR
                    \<or> exit_reason (run_exit a st) = AEHD_EXIT_SHUTDOWN
                    \<or> (exit_reason (run_exit a st) = AEHD_EXIT_SYSTEM_EVENT
                        \<and> (system_event_type (run_exit a st) = AEHD_SYSTEM_EVENT_SHUTDOWN
                            \<or> system_event_type (run_exit a st) = AEHD_SYSTEM_EVENT_RESET)))
            \<longrightarrow> fst (aehd_cpu_exec_body h a st) = EXCP_INTERRUPT
                \<and> aehd_cpu_exec_loop h a st = Some (aehd_cpu_exec_body h a st))
       \<and> (\<forall>st. \<not> run_accepted h st
            \<longrightarrow> fst (aehd_cpu_exec_body h a st) =
                  (if io_last_error
                        (DeviceIoControl h (snd (aehd_cpu_exec_prerun st)) Vcpu_fd AEHD_RUN)
                        = ERROR_RETRY
                   then EXCP_INTERRUPT else - 1)
                \<and> aehd_cpu_exec_loop h a st = Some (aehd_cpu_exec_body h a st))"
proof (intro conjI allI impI)
  fix n
  assume n: "(\<forall>i<n. fst (aehd_cpu_exec_body h a (exec_state_after h a i (cpu, tr))) = 0)
              \<and> fst (aehd_cpu_exec_body h a (exec_state_after h a n (cpu, tr))) \<noteq> 0"
  then have "aehd_cpu_exec_loop h a (cpu, tr)
               = Some (aehd_cpu_exec_body h a (exec_state_after h a n (cpu, tr)))"
    by (intro exec_loop_returns) simp_all
  then show "aehd_cpu_exec h a cpu tr =
                  (case aehd_cpu_exec_body h a (exec_state_after h a n (cpu, tr)) of
                     (ret, cpu1, tr1) \<Rightarrow>
                       Some (ret, cpu1 \<lparr> exit_request := False \<rparr>,
                             tr1 @ (if ret < 0 then [Cpu_dump_state, Vm_stop] else [])))"
    using assms by (simp add: aehd_cpu_exec_def Let_def split: prod.split)
next
  assume "\<forall>i. fst (aehd_cpu_exec_body h a (exec_state_after h a i (cpu, tr))) = 0"
  then have "aehd_cpu_exec_loop h a (cpu, tr) = None" by (rule exec_loop_diverges)
  then show "aehd_cpu_exec h a cpu tr = None"
    using assms by (simp add: aehd_cpu_exec_def)
next
  fix st
  assume "fst (aehd_cpu_exec_body h a st) = 0"
  then show "aehd_cpu_exec_loop h a st = aehd_cpu_exec_loop h a (snd (aehd_cpu_exec_body h a st))"
    by (rule exec_loop_again)
next
  fix st
  assume "fst (aehd_cpu_exec_body h a st) \<noteq> 0"
  then show "aehd_cpu_exec_loop h a st = Some (aehd_cpu_exec_body h a st)"
    by (rule exec_loop_ends)
next
  fix run :: aehd_run and st :: "CPUState \<times> event list"
  assume "exit_reason run = AEHD_EXIT_IO \<or> exit_reason run = AEHD_EXIT_MMIO
            \<or> (exit_reason run = AEHD_EXIT_SYSTEM_EVENT
                \<and> system_event_type run = AEHD_SYSTEM_EVENT_CRASH)"
  then show "fst (aehd_cpu_exec_dispatch a run st) = 0"
    by (rule dispatch_zero)
next
  fix run :: aehd_run and st :: "CPUState \<times> event list"
  assume "exit_reason run = AEHD_EXIT_IRQ_WINDOW_OPEN \<or> exit_reason run = AEHD_EXIT_INTR
            \<or> exit_reason run = AEHD_EXIT_SHUTDOWN
            \<or> (exit_reason run = AEHD_EXIT_SYSTEM_EVENT
                \<and> (system_event_type run = AEHD_SYSTEM_EVENT_SHUTDOWN
                    \<or> system_event_type run = AEHD_SYSTEM_EVENT_RESET))"
  then show "fst (aehd_cpu_exec_dispatch a run st) = EXCP_INTERRUPT"
    by (rule dispatch_interrupt)
next
  show "EXCP_INTERRUPT \<noteq> 0" by (simp add: EXCP_INTERRUPT_def)
next
  fix st
  assume "run_accepted h st"
  then show "aehd_cpu_exec_body h a st =
                  aehd_cpu_exec_dispatch a (run_exit a st)
                    (fst (aehd_cpu_exec_prerun st),
                     snd (aehd_cpu_exec_prerun st) @ [Ioctl Vcpu_fd AEHD_RUN, Arch_post_run])"
    by (rule exec_body_accepted)
next
  fix st
  assume p: "run_accepted h st
                \<and> (exit_reason (run_exit a st) = AEHD_EXIT_IO
                    \<or> exit_reason (run_exit a st) = AEHD_EXIT_MMIO
                    \<or> (exit_reason (run_exit a st) = AEHD_EXIT_SYSTEM_EVENT
                        \<and> system_event_type (run_exit a st) = AEHD_SYSTEM_EVENT_CRASH))"
  then have z: "fst (aehd_cpu_exec_body h a st) = 0"
    by (simp only: exec_body_accepted dispatch_zero)
  show "fst (aehd_cpu_exec_body h a st) = 0" by (rule z)
  show "aehd_cpu_exec_loop h a st = aehd_cpu_exec_loop h a (snd (aehd_cpu_exec_body h a st))"
    using z by (rule exec_loop_again)
next
  fix st
  assume p: "run_accepted h st
                \<and> (exit_reason (run_exit a st) = AEHD_EXIT_IRQ_WINDOW_OPEN
                    \<or> exit_reason (run_exit a st) = AEHD_EXIT_INTR
                    \<or> exit_reason (run_exit a st) = AEHD_EXIT_SHUTDOWN
                    \<or> (exit_reason (run_exit a st) = AEHD_EXIT_SYSTEM_EVENT
                        \<and> (system_event_type (run_exit a st) = AEHD_SYSTEM_EVENT_SHUTDOWN
                            \<or> system_event_type (run_exit a st) = AEHD_SYSTEM_EVENT_RESET)))"
  then have z: "fst (aehd_cpu_exec_body h a st) = EXCP_INTERRUPT"
    by (simp only: exec_body_accepted dispatch_interrupt)
  show "fst (aehd_cpu_exec_body h a st) = EXCP_INTERRUPT" by (rule z)
  show "aehd_cpu_exec_loop h a st = Some (aehd_cpu_exec_body h a st)"
    using z by (intro exec_loop_ends) (simp add: EXCP_INTERRUPT_def)
next
  fix st
  assume p: "\<not> run_accepted h st"
  show z: "fst (aehd_cpu_exec_body h a st) =
                  (if io_last_error
                        (DeviceIoControl h (snd (aehd_cpu_exec_prerun st)) Vcpu_fd AEHD_RUN)
                        = ERROR_RETRY
                   then EXCP_INTERRUPT else - 1)"
    using p by (simp add: exec_body_refused)
  show "aehd_cpu_exec_loop h a st = Some (aehd_cpu_exec_body h a st)"
    using z by (intro exec_loop_ends) (simp add: EXCP_INTERRUPT_def)
qed

lemma body_first:
  "aehd_cpu_exec_body accepting_host (io_then r) (example_cpu True, []) =
     (0, example_cpu False,
      [Arch_put_registers AEHD_PUT_RUNTIME_STATE, Arch_pre_run, Ioctl Vcpu_fd AEHD_RUN,
       Arch_post_run, Address_space_rw_io 0x3f8 1 True, Address_space_rw_io 0x3f8 1 True])"
  by (simp add: aehd_cpu_exec_body_def aehd_cpu_exec_prerun_def aehd_cpu_exec_dispatch_def Let_def example_cpu_def
        aehd_vcpu_ioctl_def device_io_control_def accepting_host_def ok_reply_def io_then_def
        runs_before_def example_run_def aehd_handle_io_def numeral_2_eq_2)

lemma body_second:
  "aehd_cpu_exec_body accepting_host (io_then AEHD_EXIT_INTR) (example_cpu False, first_pass_trace) =
     (EXCP_INTERRUPT, example_cpu False,
      first_pass_trace @ [Arch_pre_run, Ioctl Vcpu_fd AEHD_RUN, Arch_post_run])"
  "aehd_cpu_exec_body accepting_host (io_then AEHD_EXIT_UNKNOWN) (example_cpu False, first_pass_trace) =
     (- 1, example_cpu False,
      first_pass_trace @ [Arch_pre_run, Ioctl Vcpu_fd AEHD_RUN, Arch_post_run])"
  by (simp_all add: aehd_cpu_exec_body_def aehd_cpu_exec_prerun_def aehd_cpu_exec_dispatch_def Let_def example_cpu_def
        aehd_vcpu_ioctl_def device_io_control_def accepting_host_def ok_reply_def io_then_def
        runs_before_def example_run_def first_pass_trace_def)

theorem aehd_cpu_exec_loop_exit_witness:
  "\<not> aehd_arch_process_async_events (io_then AEHD_EXIT_INTR) []
   \<and> \<not> aehd_arch_process_async_events (io_then AEHD_EXIT_UNKNOWN) []
   \<and> aehd_cpu_exec accepting_host (io_then AEHD_EXIT_INTR) (example_cpu True) [] =
       Some (EXCP_INTERRUPT, example_cpu False,
             first_pass_trace @ [Arch_pre_run, Ioctl Vcpu_fd AEHD_RUN, Arch_post_run])
   \<and> aehd_cpu_exec accepting_host (io_then AEHD_EXIT_UNKNOWN) (example_cpu True) [] =
       Some (- 1, example_cpu False,
             first_pass_trace @ [Arch_pre_run, Ioctl Vcpu_fd AEHD_RUN, Arch_post_run,
                                 Cpu_dump_state, Vm_stop])
   \<and> (\<forall>st. run_accepted accepting_host st
             \<and> exit_reason (run_exit (io_then AEHD_EXIT_IO) st) = AEHD_EXIT_IO)
   \<and> aehd_cpu_exec accepting_host (io_then AEHD_EXIT_IO) (example_cpu True) [] = None
   \<and> run_accepted accepting_host (example_cpu False, first_pass_trace)
   \<and> exit_reason (run_exit (io_then AEHD_EXIT_INTR) (example_cpu False, first_pass_trace))
        = AEHD_EXIT_INTR
   \<and> aehd_cpu_exec_loop accepting_host (io_then AEHD_EXIT_INTR) (example_cpu False, first_pass_trace) =
       Some (EXCP_INTERRUPT, example_cpu False,
             first_pass_trace @ [Arch_pre_run, Ioctl Vcpu_fd AEHD_RUN, Arch_post_run])
   \<and> \<not> run_accepted (refusing_host (ERROR_OTHER 5)) (example_cpu False, [])
   \<and> aehd_cpu_exec_loop (refusing_host (ERROR_OTHER 5)) (io_then AEHD_EXIT_IO) (example_cpu False, []) =
       Some (- 1, example_cpu False, [Arch_pre_run, Ioctl Vcpu_fd AEHD_RUN, Arch_post_run])"
proof -
  have na: "\<not> aehd_arch_process_async_events (io_then r) []" for r
    by (simp add: io_then_def)
  have acc: "run_accepted accepting_host st" for st
    by (simp add: run_accepted_def accepting_host_def ok_reply_def)
  have io: "exit_reason (run_exit (io_then AEHD_EXIT_IO) st) = AEHD_EXIT_IO" for st
    by (simp add: run_exit_def io_then_def example_run_def)
  have zero: "fst (aehd_cpu_exec_body accepting_host (io_then AEHD_EXIT_IO) st) = 0" for st
    using aehd_cpu_exec_loop_exit [where a = "io_then AEHD_EXIT_IO" and tr = "[]"
            and h = accepting_host and cpu = "example_cpu True",
            OF na, THEN conjunct2, THEN conjunct2, THEN conjunct2, THEN conjunct2, THEN conjunct2,
            THEN conjunct2, THEN conjunct2, THEN conjunct2, THEN conjunct1, rule_format, of st]
      acc io
    by simp
  have forever: "aehd_cpu_exec accepting_host (io_then AEHD_EXIT_IO) (example_cpu True) [] = None"
    using aehd_cpu_exec_loop_exit [where a = "io_then AEHD_EXIT_IO" and tr = "[]"
            and h = accepting_host and cpu = "example_cpu True",
            OF na, THEN conjunct2, THEN conjunct1]
      zero
    by simp
  have intr: "exit_reason (run_exit (io_then AEHD_EXIT_INTR) (example_cpu False, first_pass_trace))
                = AEHD_EXIT_INTR"
    by (simp add: run_exit_def aehd_cpu_exec_prerun_def io_then_def example_run_def example_cpu_def
          runs_before_def first_pass_trace_def)
  have second: "aehd_cpu_exec_body accepting_host (io_then AEHD_EXIT_INTR)
                  (example_cpu False, first_pass_trace) =
       (EXCP_INTERRUPT, example_cpu False,
        first_pass_trace @ [Arch_pre_run, Ioctl Vcpu_fd AEHD_RUN, Arch_post_run])"
    by (rule body_second(1))
  have ends: "aehd_cpu_exec_loop accepting_host (io_then AEHD_EXIT_INTR)
                (example_cpu False, first_pass_trace) =
       Some (EXCP_INTERRUPT, example_cpu False,
             first_pass_trace @ [Arch_pre_run, Ioctl Vcpu_fd AEHD_RUN, Arch_post_run])"
    using aehd_cpu_exec_loop_exit [where a = "io_then AEHD_EXIT_INTR" and tr = "[]"
            and h = accepting_host and cpu = "example_cpu True",
            OF na, THEN conjunct2, THEN conjunct2, THEN conjunct2, THEN conjunct2, THEN conjunct2,
            THEN conjunct2, THEN conjunct2, THEN conjunct2, THEN conjunct2, THEN conjunct1,
            rule_format, of "(example_cpu False, first_pass_trace)"]
      acc intr
    by (simp add: second)
  have nacc: "\<not> run_accepted (refusing_host (ERROR_OTHER 5)) (example_cpu False, [])"
    by (simp add: run_accepted_def refusing_host_def failed_reply_def)
  have pre: "aehd_cpu_exec_prerun (example_cpu False, []) = (example_cpu False, [Arch_pre_run])"
    by (simp add: aehd_cpu_exec_prerun_def example_cpu_def)
  have refused_body: "aehd_cpu_exec_body (refusing_host (ERROR_OTHER 5)) (io_then AEHD_EXIT_IO)
                        (example_cpu False, []) =
       (- 1, example_cpu False, [Arch_pre_run, Ioctl Vcpu_fd AEHD_RUN, Arch_post_run])"
    using exec_body_refused [OF nacc, of "io_then AEHD_EXIT_IO"]
    by (simp add: pre refusing_host_def failed_reply_def)
  have refused: "aehd_cpu_exec_loop (refusing_host (ERROR_OTHER 5)) (io_then AEHD_EXIT_IO)
                   (example_cpu False, []) =
       Some (- 1, example_cpu False, [Arch_pre_run, Ioctl Vcpu_fd AEHD_RUN, Arch_post_run])"
    using aehd_cpu_exec_loop_exit [where a = "io_then AEHD_EXIT_IO" and tr = "[]"
            and h = "refusing_host (ERROR_OTHER 5)" and cpu = "example_cpu True",
            OF na, THEN conjunct2, THEN conjunct2, THEN conjunct2, THEN conjunct2, THEN conjunct2,
            THEN conjunct2, THEN conjunct2, THEN conjunct2, THEN conjunct2, THEN conjunct2,
            rule_format, of "(example_cpu False, [])"]
      nacc
    by (simp add: refused_body)
  have s1: "exec_state_after accepting_host (io_then r) (Suc 0) (example_cpu True, [])
              = (example_cpu False, first_pass_trace)" for r
    by (simp add: exec_state_after_simps body_first first_pass_trace_def)
  have z: "\<forall>i<Suc 0. fst (aehd_cpu_exec_body accepting_host (io_then r)
                (exec_state_after accepting_host (io_then r) i (example_cpu True, []))) = 0" for r
    by (simp add: exec_state_after_simps body_first)
  have a: "fst (aehd_cpu_exec_body accepting_host (io_then AEHD_EXIT_INTR)
                (exec_state_after accepting_host (io_then AEHD_EXIT_INTR) (Suc 0) (example_cpu True, []))) \<noteq> 0"
    by (simp add: s1 body_second EXCP_INTERRUPT_def)
  have b: "fst (aehd_cpu_exec_body accepting_host (io_then AEHD_EXIT_UNKNOWN)
                (exec_state_after accepting_host (io_then AEHD_EXIT_UNKNOWN) (Suc 0) (example_cpu True, []))) \<noteq> 0"
    by (simp add: s1 body_second)
  note t1 = aehd_cpu_exec_loop_exit [where a = "io_then AEHD_EXIT_INTR" and tr = "[]"
              and h = accepting_host and cpu = "example_cpu True",
              OF na, THEN conjunct1, rule_format, of "Suc 0", OF conjI [OF z a]]
  note t2 = aehd_cpu_exec_loop_exit [where a = "io_then AEHD_EXIT_UNKNOWN" and tr = "[]"
              and h = accepting_host and cpu = "example_cpu True",
              OF na, THEN conjunct1, rule_format, of "Suc 0", OF conjI [OF z b]]
  have e: "(example_cpu False) \<lparr> exit_request := False \<rparr> = example_cpu False"
    by (simp add: example_cpu_def)
  have r1: "aehd_cpu_exec accepting_host (io_then AEHD_EXIT_INTR) (example_cpu True) [] =
       Some (EXCP_INTERRUPT, example_cpu False,
             first_pass_trace @ [Arch_pre_run, Ioctl Vcpu_fd AEHD_RUN, Arch_post_run])"
    using t1 by (simp add: s1 body_second e EXCP_INTERRUPT_def)
  have r2: "aehd_cpu_exec accepting_host (io_then AEHD_EXIT_UNKNOWN) (example_cpu True) [] =
       Some (- 1, example_cpu False,
             first_pass_trace @ [Arch_pre_run, Ioctl Vcpu_fd AEHD_RUN, Arch_post_run,
                                 Cpu_dump_state, Vm_stop])"
    using t2 by (simp add: s1 body_second e)
  show ?thesis
    using r1 r2 na acc io forever intr ends nacc refused by simp
qed

subsection \<open>Retrying the create-VM request\<close>

lemma trace_after_attempts_simps:
  "trace_after_attempts call 0 tr = tr"
  "trace_after_attempts call (Suc n) tr = trace_after_attempts call n (snd (snd (call tr)))"
  "trace_after_attempts call (Suc n) tr = snd (snd (call (trace_after_attempts call n tr)))"
proof -
  let ?f = "\<lambda>t. snd (snd (call t))"
  show "trace_after_attempts call 0 tr = tr"
    by (simp add: trace_after_attempts_def)
  show "trace_after_attempts call (Suc n) tr = trace_after_attempts call n (snd (snd (call tr)))"
    unfolding trace_after_attempts_def using funpow_swap1 [of ?f n tr] by simp
  show "trace_after_attempts call (Suc n) tr = snd (snd (call (trace_after_attempts call n tr)))"
    by (simp add: trace_after_attempts_def)
qed

lemma retry_while_EINTR_returns:
  assumes "\<forall>i<n. fst (call (trace_after_attempts call i tr)) = - EINTR"
      and "fst (call (trace_after_attempts call n tr)) \<noteq> - EINTR"
  shows "retry_while_EINTR call tr =
           Some (fst (call (trace_after_attempts call n tr)), trace_after_attempts call (Suc n) tr)"
  using assms
proof (induction n arbitrary: tr)
  case 0
  then show ?case
    by (subst retry_while_EINTR.simps)
       (auto simp: trace_after_attempts_simps(1,2) split: prod.split)
next
  case (Suc n)
  let ?tr = "snd (snd (call tr))"
  have z: "fst (call tr) = - EINTR"
    using Suc.prems(1) [rule_format, of 0] by (simp add: trace_after_attempts_simps(1))
  have "\<forall>i<n. fst (call (trace_after_attempts call i ?tr)) = - EINTR"
    using Suc.prems(1) by (auto simp: trace_after_attempts_simps(2) [symmetric])
  moreover have "fst (call (trace_after_attempts call n ?tr)) \<noteq> - EINTR"
    using Suc.prems(2) by (simp add: trace_after_attempts_simps(2))
  ultimately have "retry_while_EINTR call ?tr =
      Some (fst (call (trace_after_attempts call n ?tr)), trace_after_attempts call (Suc n) ?tr)"
    by (rule Suc.IH)
  moreover have "retry_while_EINTR call tr = retry_while_EINTR call ?tr"
    using z by (subst retry_while_EINTR.simps) (auto split: prod.split)
  ultimately show ?case by (simp add: trace_after_attempts_simps(2))
qed


lemma aehd_init_create_vm_once:
  "aehd_init_create_vm h tr =
     Some (fst (aehd_ioctl h AEHD_CREATE_VM tr), tr @ [Ioctl Device_fd AEHD_CREATE_VM])"
proof -
  let ?call = "aehd_ioctl h AEHD_CREATE_VM"
  have a: "\<forall>i<0. fst (?call (trace_after_attempts ?call i tr)) = - EINTR" by simp
  have b: "fst (?call (trace_after_attempts ?call 0 tr)) \<noteq> - EINTR"
    by (rule aehd_ioctl_not_EINTR)
  have t: "trace_after_attempts ?call (Suc 0) tr = tr @ [Ioctl Device_fd AEHD_CREATE_VM]"
    using device_io_control_trace [of h Device_fd AEHD_CREATE_VM tr]
    by (simp add: trace_after_attempts_simps(1,2) aehd_ioctl_def)
  show ?thesis
    unfolding aehd_init_create_vm_def
    using retry_while_EINTR_returns [OF a b] by (simp add: t trace_after_attempts_simps(1))
qed

lemma create_vm_would_block_returned:
  "aehd_init_create_vm (first_request_fails_host ERROR_RETRY) [] =
     Some (- EAGAIN, [Ioctl Device_fd AEHD_CREATE_VM])"
  by (simp add: aehd_init_create_vm_once aehd_ioctl_def device_io_control_def Let_def
        first_request_fails_host_def failed_reply_def errno_of_last_error_def)



end
